theory Spec2Isabelle
  imports Complex_Main "HOL-Library.Sublist"
begin

section \<open>Human-readable sizes: \<open>formatSize\<close> (server.js)\<close>

text \<open>
  \<^verbatim>\<open>
  function formatSize(bytes) {
    const units = ["B", "KB", "MB", "GB", "TB"];
    let size = bytes;
    let unitIndex = 0;
    while (size >= 1024 && unitIndex < units.length - 1) {
      size /= 1024;
      unitIndex++;
    }
    return `${size.toFixed(1)} ${units[unitIndex]}`;
  }
  \<close>
  \<open>bytes\<close> is \<open>stats.size\<close>, a non-negative integer. JavaScript numbers are binary
  doubles, but every value this function computes is \<open>bytes / 1024 ^ k\<close>: a division
  by a power of two, which is exact for every integer below \<open>2 ^ 53\<close>.
  \<open>Number.prototype.toFixed\<close> is specified by ECMAScript on the exact mathematical value
  of its argument (the integer \<open>n\<close> with \<open>n / 10 ^ f - x\<close> closest to zero, the larger
  \<open>n\<close> on a tie). The model therefore computes with rationals, and agrees with the
  code for byte counts below \<open>2 ^ 53\<close>.
\<close>

definition units :: "string list" where
  "units = [''B'', ''KB'', ''MB'', ''GB'', ''TB'']"

function formatSize_loop :: "rat \<Rightarrow> nat \<Rightarrow> rat \<times> nat" where
  "formatSize_loop sz unitIndex =
     (if sz \<ge> 1024 \<and> unitIndex < length units - 1
      then formatSize_loop (sz / 1024) (unitIndex + 1)
      else (sz, unitIndex))"
  by pat_completeness auto
termination
  by (relation "measure (\<lambda>(sz, unitIndex). length units - unitIndex)") auto

declare formatSize_loop.simps [simp del]

definition digit_char :: "nat \<Rightarrow> char" where
  "digit_char d = ''0123456789'' ! d"

text \<open>The decimal digits of a natural number, most significant first.\<close>

function show_nat :: "nat \<Rightarrow> string" where
  "show_nat n =
     (if n < 10 then [digit_char n] else show_nat (n div 10) @ [digit_char (n mod 10)])"
  by pat_completeness auto
termination
  by (relation "measure id") auto

declare show_nat.simps [simp del]

text \<open>
  \<open>x.toFixed(f)\<close> for \<open>0 \<le> x < 10 ^ 21\<close>, following the steps of ECMAScript: the
  closest integer \<open>n\<close> to \<open>x * 10 ^ f\<close> (ties upwards), its digits, padded on the left
  with zeros to at least \<open>f + 1\<close> digits, and a point before the last \<open>f\<close> digits.
\<close>

definition toFixed :: "rat \<Rightarrow> nat \<Rightarrow> string" where
  "toFixed x f =
     (let n = nat \<lfloor>x * 10 ^ f + 1 / 2\<rfloor>;
          m = show_nat n
      in if f = 0 then m
         else (let m' = (if length m \<le> f
                         then replicate (f + 1 - length m) (CHR ''0'') @ m else m);
                   k = length m'
               in take (k - f) m' @ ''.'' @ drop (k - f) m'))"

definition formatSize :: "nat \<Rightarrow> string" where
  "formatSize bytes =
     (case formatSize_loop (of_nat bytes) 0 of
        (sz, unitIndex) \<Rightarrow> toFixed sz 1 @ '' '' @ units ! unitIndex)"

section \<open>Node's \<open>path\<close> module (POSIX)\<close>

text \<open>
  \<open>server.js\<close> builds every filesystem path with \<open>path.join\<close>, \<open>path.normalize\<close>,
  \<open>path.resolve\<close>, \<open>path.basename\<close>, \<open>path.dirname\<close> and \<open>path.relative\<close>. These belong to
  Node, not to the repository; they are modelled here after Node's POSIX implementation
  (\<open>lib/path.js\<close>), whose separator is \<open>/\<close>. A JavaScript string is modelled as a
  \<open>string\<close>, one \<open>char\<close> per code unit.

  Node's \<open>normalizeString\<close> scans the characters once, keeping the result so far in
  \<open>res\<close>: an empty segment or \<open>.\<close> is skipped; \<open>..\<close> removes the last segment of
  \<open>res\<close> unless \<open>res\<close> is empty or ends in \<open>..\<close>, in which case \<open>..\<close> is appended when
  \<open>allowAboveRoot\<close> holds and dropped otherwise; any other segment is appended. The
  model does the same on the list of segments between separators.
\<close>

fun splitSlash :: "string \<Rightarrow> string list" where
  "splitSlash [] = [[]]"
| "splitSlash (c # cs) =
     (if c = CHR ''/'' then [] # splitSlash cs
      else (case splitSlash cs of [] \<Rightarrow> [[c]] | s # ss \<Rightarrow> (c # s) # ss))"

fun joinSlash :: "string list \<Rightarrow> string" where
  "joinSlash [] = []"
| "joinSlash [s] = s"
| "joinSlash (s # t # ss) = s @ CHR ''/'' # joinSlash (t # ss)"

fun normalizeSegs :: "bool \<Rightarrow> string list \<Rightarrow> string list \<Rightarrow> string list" where
  "normalizeSegs allowAboveRoot res [] = res"
| "normalizeSegs allowAboveRoot res (s # ss) =
     (if s = [] \<or> s = ''.'' then normalizeSegs allowAboveRoot res ss
      else if s = ''..'' then
        (if res \<noteq> [] \<and> last res \<noteq> ''..''
         then normalizeSegs allowAboveRoot (butlast res) ss
         else if allowAboveRoot then normalizeSegs allowAboveRoot (res @ [''..'']) ss
         else normalizeSegs allowAboveRoot res ss)
      else normalizeSegs allowAboveRoot (res @ [s]) ss)"

definition normalizeString :: "string \<Rightarrow> bool \<Rightarrow> string" where
  "normalizeString path allowAboveRoot =
     joinSlash (normalizeSegs allowAboveRoot [] (splitSlash path))"

definition isAbsolute :: "string \<Rightarrow> bool" where
  "isAbsolute path = (path \<noteq> [] \<and> hd path = CHR ''/'')"

text \<open>
  \<^verbatim>\<open>
  normalize(path) {
    if (path.length === 0) return '.';
    const isAbsolute = path.charCodeAt(0) === CHAR_FORWARD_SLASH;
    const trailingSeparator = path.charCodeAt(path.length - 1) === CHAR_FORWARD_SLASH;
    path = normalizeString(path, !isAbsolute, '/', isPosixPathSeparator);
    if (path.length === 0) {
      if (isAbsolute) return '/';
      return trailingSeparator ? './' : '.';
    }
    if (trailingSeparator) path += '/';
    return isAbsolute ? `/${path}` : path;
  }
  \<close>
\<close>

definition posix_normalize :: "string \<Rightarrow> string" where
  "posix_normalize path =
     (if path = [] then ''.''
      else
        (let trailingSeparator = (last path = CHR ''/'');
             p = normalizeString path (\<not> isAbsolute path)
         in if p = [] then
              (if isAbsolute path then ''/'' else if trailingSeparator then ''./'' else ''.'')
            else
              (let p' = (if trailingSeparator then p @ ''/'' else p)
               in if isAbsolute path then CHR ''/'' # p' else p')))"

text \<open>
  \<open>path.join(...args)\<close>: the non-empty arguments joined by \<open>/\<close> and normalized;
  \<open>.\<close> when there is none.
\<close>

definition posix_join :: "string list \<Rightarrow> string" where
  "posix_join args =
     (case filter (\<lambda>arg. arg \<noteq> []) args of
        [] \<Rightarrow> ''.''
      | joined \<Rightarrow> posix_normalize (joinSlash joined))"

text \<open>
  \<open>path.resolve(...args)\<close> walks the arguments from the last to the first, and then the
  working directory, prepending each non-empty one, until the path is absolute; the
  result is normalized and has no trailing separator. \<open>resolveLoop\<close> takes the
  arguments in the order of the walk.
\<close>

fun resolveLoop :: "string list \<Rightarrow> string \<Rightarrow> string \<times> bool" where
  "resolveLoop [] resolvedPath = (resolvedPath, False)"
| "resolveLoop (path # rest) resolvedPath =
     (if path = [] then resolveLoop rest resolvedPath
      else if hd path = CHR ''/'' then (path @ CHR ''/'' # resolvedPath, True)
      else resolveLoop rest (path @ CHR ''/'' # resolvedPath))"

definition posix_resolve :: "string \<Rightarrow> string list \<Rightarrow> string" where
  "posix_resolve cwd args =
     (case resolveLoop (rev args @ [cwd]) [] of
        (resolvedPath, resolvedAbsolute) \<Rightarrow>
          (let p = normalizeString resolvedPath (\<not> resolvedAbsolute)
           in if resolvedAbsolute then CHR ''/'' # p
              else if p \<noteq> [] then p else ''.''))"

text \<open>
  \<open>path.basename(path)\<close>: the characters after the last separator, trailing separators
  ignored. \<open>path.dirname(path)\<close>: the path up to the separator before that last segment;
  \<open>.\<close> or \<open>/\<close> when there is none.
\<close>

definition posix_basename :: "string \<Rightarrow> string" where
  "posix_basename path =
     rev (takeWhile (\<lambda>c. c \<noteq> CHR ''/'') (dropWhile (\<lambda>c. c = CHR ''/'') (rev path)))"

definition posix_dirname :: "string \<Rightarrow> string" where
  "posix_dirname path =
     (if path = [] then ''.''
      else
        (let hasRoot = (hd path = CHR ''/'');
             scanned = dropWhile (\<lambda>c. c \<noteq> CHR ''/'')
                         (dropWhile (\<lambda>c. c = CHR ''/'') (rev (tl path)));
             end = length scanned
         in if scanned = [] then (if hasRoot then ''/'' else ''.'')
            else if hasRoot \<and> end = 1 then ''//''
            else take end path))"

text \<open>
  \<open>path.relative(from, to)\<close>: both are resolved; the common leading segments are
  dropped, every remaining segment of \<open>from\<close> becomes \<open>..\<close>, and the remaining segments
  of \<open>to\<close> follow.
\<close>

fun dropCommon :: "string list \<Rightarrow> string list \<Rightarrow> string list \<times> string list" where
  "dropCommon (x # xs) (y # ys) = (if x = y then dropCommon xs ys else (x # xs, y # ys))"
| "dropCommon xs ys = (xs, ys)"

definition pathSegments :: "string \<Rightarrow> string list" where
  "pathSegments path = filter (\<lambda>s. s \<noteq> []) (splitSlash path)"

definition posix_relative :: "string \<Rightarrow> string \<Rightarrow> string \<Rightarrow> string" where
  "posix_relative cwd from to =
     (if from = to then []
      else
        (let from' = posix_resolve cwd [from]; to' = posix_resolve cwd [to]
         in if from' = to' then []
            else (case dropCommon (pathSegments from') (pathSegments to') of
                    (fs, ts) \<Rightarrow> joinSlash (map (\<lambda>s. ''..'') fs @ ts))))"

section \<open>The path resolver: \<open>safePath\<close> (server.js)\<close>

text \<open>
  \<^verbatim>\<open>
  const STORAGE_DIR = process.env.STORAGE_DIR || path.join(__dirname, "storage");

  function safePath(...paths) {
    const normalized = path.normalize(path.join(...paths));
    const resolvedPath = path.resolve(STORAGE_DIR, normalized);
    if (!resolvedPath.startsWith(STORAGE_DIR)) {
      throw new Error("Path traversal attempt detected");
    }
    return resolvedPath;
  }
  \<close>
  The process-wide constants are collected in a record: the storage root, the working
  directory that \<open>path.resolve\<close> falls back on, the host's collation, which
  \<open>String.prototype.localeCompare\<close> consults when a listing is sorted, and the table of
  the package \<open>mime-types\<close>, whose \<open>mime.lookup(path)\<close> gives the content type of a file
  name or \<open>false\<close>.
\<close>

record host =
  STORAGE_DIR :: string
  cwd :: string
  localeCompare :: "string \<Rightarrow> string \<Rightarrow> int"
  mimeLookup :: "string \<Rightarrow> string option"

text \<open>
  What a \<open>try\<close> block can throw: an \<open>Error\<close> with a message, a \<open>TypeError\<close> (a
  missing request field handed to \<open>path.join\<close>), or a system error of the filesystem,
  which carries a code, the system call and the paths of the call; the error of a
  failed \<open>read\<close> carries no path.
\<close>

datatype errno = ENOENT | ENOTDIR | EISDIR | ENOTEMPTY | EEXIST | EINVAL | EXDEV | EBUSY

datatype exn =
    Error string
  | TypeError string
  | SystemError errno string string "string option"
  | SystemErrorNoPath errno string

definition traversalError :: exn where
  "traversalError = Error ''Path traversal attempt detected''"

definition resolvedPath :: "host \<Rightarrow> string list \<Rightarrow> string" where
  "resolvedPath h paths =
     posix_resolve (cwd h) [STORAGE_DIR h, posix_normalize (posix_join paths)]"

definition safePath :: "host \<Rightarrow> string list \<Rightarrow> exn + string" where
  "safePath h paths =
     (if \<not> prefix (STORAGE_DIR h) (resolvedPath h paths) then Inl traversalError
      else Inr (resolvedPath h paths))"

text \<open>
  A clean segment is not empty and holds no separator; a plain segment is none of the
  empty segment, \<open>.\<close> and \<open>..\<close>, which normalization treats specially.
\<close>

definition cleanSeg :: "string \<Rightarrow> bool" where
  "cleanSeg s = (s \<noteq> [] \<and> CHR ''/'' \<notin> set s)"

definition plainSeg :: "string \<Rightarrow> bool" where
  "plainSeg s = (s \<noteq> [] \<and> s \<noteq> ''.'' \<and> s \<noteq> ''..'')"

text \<open>
  Containment as the specification words it: the resolved path is the root itself or a
  descendant of it, compared segment by segment (so \<open>/storage2\<close> is not inside
  \<open>/storage\<close>).
\<close>

definition insideRoot :: "string \<Rightarrow> string \<Rightarrow> bool" where
  "insideRoot rootDir p = prefix (pathSegments rootDir) (pathSegments p)"

text \<open>
  The storage root is expected to be an absolute path in normal form, as the default
  \<open>path.join(__dirname, "storage")\<close> is: a path \<open>p\<close> with \<open>path.resolve(p) = p\<close>.
\<close>

definition canonicalPath :: "string \<Rightarrow> bool" where
  "canonicalPath p = (isAbsolute p \<and> p = CHR ''/'' # normalizeString p False)"

text \<open>
  The segments of \<open>path.resolve(STORAGE_DIR, s)\<close> for an absolute storage root: those
  of \<open>s\<close> alone when \<open>s\<close> is absolute, and otherwise the segments of the root followed
  by those of \<open>s\<close>, normalized.
\<close>

definition rootSegs :: "host \<Rightarrow> string list" where
  "rootSegs h = normalizeSegs False [] (splitSlash (STORAGE_DIR h))"

definition belowSegs :: "host \<Rightarrow> string \<Rightarrow> string list" where
  "belowSegs h s =
     normalizeSegs False (if isAbsolute s then [] else rootSegs h) (splitSlash s)"

text \<open>
  A concrete host for the examples: the storage root \<open>/srv/storage\<close>, a collation
  that compares code units, and a content-type table that knows the extension \<open>.txt\<close>.
\<close>

fun compareCodeUnits :: "string \<Rightarrow> string \<Rightarrow> int" where
  "compareCodeUnits [] [] = 0"
| "compareCodeUnits [] (y # ys) = - 1"
| "compareCodeUnits (x # xs) [] = 1"
| "compareCodeUnits (x # xs) (y # ys) =
     (if (of_char x :: nat) < of_char y then - 1
      else if (of_char y :: nat) < of_char x then 1
      else compareCodeUnits xs ys)"

definition demoMimeLookup :: "string \<Rightarrow> string option" where
  "demoMimeLookup p = (if suffix ''.txt'' p then Some ''text/plain'' else None)"

definition demoHost :: host where
  "demoHost =
     \<lparr>STORAGE_DIR = ''/srv/storage'', cwd = ''/app'', localeCompare = compareCodeUnits,
      mimeLookup = demoMimeLookup\<rparr>"

text \<open>
  The same host with the storage root configured as \<open>/srv/storage/\<close>, as
  \<open>process.env.STORAGE_DIR\<close> may give it: an absolute path that is not in normal form.
\<close>

definition trailingSlashHost :: host where
  "trailingSlashHost = demoHost\<lparr>STORAGE_DIR := ''/srv/storage/''\<rparr>"

section \<open>The \<open>sanitize-filename\<close> package\<close>

text \<open>
  \<open>server.js\<close> imports \<open>sanitize\<close> from the npm package \<open>sanitize-filename\<close> and calls
  it with one argument, so the replacement is the empty string. The package is
  \<^verbatim>\<open>
  var illegalRe = /[\/\?<>\\:\*\|"]/g;
  var controlRe = /[\x00-\x1f\x80-\x9f]/g;
  var reservedRe = /^\.+$/;
  var windowsReservedRe = /^(con|prn|aux|nul|com[0-9]|lpt[0-9])(\..*)?$/i;
  var windowsTrailingRe = /[\. ]+$/;

  function sanitize(input, replacement) {
    if (typeof input !== 'string') { throw new Error('Input must be string'); }
    var sanitized = input
      .replace(illegalRe, replacement)
      .replace(controlRe, replacement)
      .replace(reservedRe, replacement)
      .replace(windowsReservedRe, replacement)
      .replace(windowsTrailingRe, replacement);
    return truncate(sanitized, 255);
  }
  \<close>
  where \<open>truncate\<close> (package \<open>truncate-utf8-bytes\<close>, here \<open>truncateBytes\<close>) keeps the
  longest prefix whose UTF-8 encoding has at most 255 bytes. A \<open>char\<close> stands for one code unit below 256; such a
  code unit takes one byte in UTF-8 below 128 and two bytes from 128 on.
\<close>

definition illegalChar :: "char \<Rightarrow> bool" where
  "illegalChar c =
     (c \<in> set [CHR ''/'', CHR ''?'', CHR ''<'', CHR ''>'', CHR 0x5C, CHR '':'', CHR ''*'',
               CHR ''|'', CHR 0x22])"

definition controlChar :: "char \<Rightarrow> bool" where
  "controlChar c = ((of_char c :: nat) \<le> 31 \<or> (128 \<le> (of_char c :: nat) \<and> (of_char c :: nat) \<le> 159))"

definition reservedName :: "string \<Rightarrow> bool" where
  "reservedName s = (s \<noteq> [] \<and> list_all (\<lambda>c. c = CHR ''.'') s)"

definition lowerChar :: "char \<Rightarrow> char" where
  "lowerChar c =
     (if 65 \<le> (of_char c :: nat) \<and> (of_char c :: nat) \<le> 90
      then char_of ((of_char c :: nat) + 32) else c)"

definition windowsDevices :: "string list" where
  "windowsDevices =
     [''con'', ''prn'', ''aux'', ''nul''] @
     map (\<lambda>d. ''com'' @ [d]) ''0123456789'' @ map (\<lambda>d. ''lpt'' @ [d]) ''0123456789''"

definition windowsReserved :: "string \<Rightarrow> bool" where
  "windowsReserved s =
     list_ex (\<lambda>dev. map lowerChar s = dev \<or> prefix (dev @ ''.'') (map lowerChar s))
       windowsDevices"

definition stripTrailing :: "string \<Rightarrow> string" where
  "stripTrailing s = rev (dropWhile (\<lambda>c. c = CHR ''.'' \<or> c = CHR '' '') (rev s))"

definition utf8Length :: "char \<Rightarrow> nat" where
  "utf8Length c = (if (of_char c :: nat) < 128 then 1 else 2)"

fun truncateBytes :: "string \<Rightarrow> nat \<Rightarrow> string" where
  "truncateBytes [] byteLength = []"
| "truncateBytes (c # cs) byteLength =
     (if utf8Length c \<le> byteLength then c # truncateBytes cs (byteLength - utf8Length c) else [])"

definition sanitize :: "string \<Rightarrow> string" where
  "sanitize input =
     (let s1 = filter (\<lambda>c. \<not> illegalChar c) input;
          s2 = filter (\<lambda>c. \<not> controlChar c) s1;
          s3 = (if reservedName s2 then [] else s2);
          s4 = (if windowsReserved s3 then [] else s3);
          s5 = stripTrailing s4
      in truncateBytes s5 255)"

section \<open>The filesystem and the calls made on it\<close>

text \<open>
  The handlers call Node's \<open>fs\<close> module. The filesystem is modelled as a table from
  absolute paths in normal form to nodes, a directory or a file with its size, in the order
  in which a directory read returns the entries; the handlers only ever pass paths that
  \<open>safePath\<close> or \<open>path.join\<close> has normalized. Modification times are left out: no
  operation here reads them but \<open>getItemInfo\<close>, which copies the time into the \<open>modified\<close>
  field of an item, and that field is left out with them. There is one storage device,
  so a rename never fails with \<open>EXDEV\<close>. The content of a file is represented by its
  length. Every call is recorded in a log, so that "no filesystem call was made" can be
  stated.
\<close>

datatype node = Directory | File nat

type_synonym filesystem = "(string \<times> node) list"

datatype fscall =
    Stat string
  | Readdir string
  | ExistsSync string
  | Mkdir string
  | Rm string
  | Unlink string
  | Rename string string
  | ReadFile string
  | ReadStream string
  | WriteStream string

record world =
  files :: filesystem
  calls :: "fscall list"

text \<open>
  The body of an \<open>async\<close> handler: it reads and changes the world, and either returns
  a value or throws.
\<close>

type_synonym 'a io = "world \<Rightarrow> (exn + 'a) \<times> world"

definition ret :: "'a \<Rightarrow> 'a io" where
  "ret x = (\<lambda>w. (Inr x, w))"

definition throw :: "exn \<Rightarrow> 'a io" where
  "throw e = (\<lambda>w. (Inl e, w))"

definition liftE :: "exn + 'a \<Rightarrow> 'a io" where
  "liftE r = (\<lambda>w. (r, w))"

definition bindIO :: "'a io \<Rightarrow> ('a \<Rightarrow> 'b io) \<Rightarrow> 'b io" where
  "bindIO m f = (\<lambda>w. case m w of (Inl e, w') \<Rightarrow> (Inl e, w') | (Inr x, w') \<Rightarrow> f x w')"

definition catchIO :: "'a io \<Rightarrow> (exn \<Rightarrow> 'a io) \<Rightarrow> 'a io" where
  "catchIO m handler = (\<lambda>w. case m w of (Inl e, w') \<Rightarrow> handler e w' | (Inr x, w') \<Rightarrow> (Inr x, w'))"

definition logCall :: "fscall \<Rightarrow> world \<Rightarrow> world" where
  "logCall c w = w\<lparr>calls := calls w @ [c]\<rparr>"

definition isDirectory :: "node \<Rightarrow> bool" where
  "isDirectory stats = (stats = Directory)"

definition isFile :: "node \<Rightarrow> bool" where
  "isFile stats = (case stats of File n \<Rightarrow> True | Directory \<Rightarrow> False)"

text \<open>\<open>fs.stat(path)\<close>: the node at the path, or \<open>ENOENT\<close>.\<close>

definition fs_stat :: "string \<Rightarrow> node io" where
  "fs_stat p w =
     (case map_of (files w) p of
        None \<Rightarrow> (Inl (SystemError ENOENT ''stat'' p None), logCall (Stat p) w)
      | Some n \<Rightarrow> (Inr n, logCall (Stat p) w))"

text \<open>\<open>existsSync(path)\<close> never throws.\<close>

definition existsSync :: "string \<Rightarrow> bool io" where
  "existsSync p w = (Inr (map_of (files w) p \<noteq> None), logCall (ExistsSync p) w)"

text \<open>
  A call that names an entry of a directory fails when the directory is missing
  (\<open>ENOENT\<close>) or is a file (\<open>ENOTDIR\<close>).
\<close>

definition parentError :: "filesystem \<Rightarrow> string \<Rightarrow> errno option" where
  "parentError fs p =
     (case map_of fs (posix_dirname p) of
        None \<Rightarrow> Some ENOENT
      | Some (File k) \<Rightarrow> Some ENOTDIR
      | Some Directory \<Rightarrow> None)"

text \<open>
  \<open>fs.readFile(path)\<close> returns the content of a file, which is represented by its
  length. Reading a directory fails in the \<open>read\<close> call, whose error carries no path.
\<close>

definition fs_readFile :: "string \<Rightarrow> nat io" where
  "fs_readFile p w =
     (case map_of (files w) p of
        None \<Rightarrow> (Inl (SystemError ENOENT ''open'' p None), logCall (ReadFile p) w)
      | Some Directory \<Rightarrow> (Inl (SystemErrorNoPath EISDIR ''read''), logCall (ReadFile p) w)
      | Some (File n) \<Rightarrow> (Inr n, logCall (ReadFile p) w))"

text \<open>
  \<open>createReadStream(path)\<close> returns a stream at once; the file is opened later, and a
  failure to open it is an event of the stream, not an exception of the caller.
\<close>

definition createReadStream :: "string \<Rightarrow> unit io" where
  "createReadStream p w = (Inr (), logCall (ReadStream p) w)"

text \<open>
  Writing \<open>len\<close> bytes through \<open>createWriteStream(path)\<close>: the file is opened for
  writing, created when it is missing and truncated when it exists, provided the
  parent is a directory and the path is not one.
\<close>

definition writeStream :: "string \<Rightarrow> nat \<Rightarrow> unit io" where
  "writeStream p len w =
     (case parentError (files w) p of
        Some e \<Rightarrow> (Inl (SystemError e ''open'' p None), logCall (WriteStream p) w)
      | None \<Rightarrow>
          (case map_of (files w) p of
             Some Directory \<Rightarrow> (Inl (SystemError EISDIR ''open'' p None), logCall (WriteStream p) w)
           | Some (File k) \<Rightarrow>
               (Inr (), logCall (WriteStream p)
                  (w\<lparr>files := map (\<lambda>(q, n). if q = p then (q, File len) else (q, n)) (files w)\<rparr>))
           | None \<Rightarrow>
               (Inr (), logCall (WriteStream p) (w\<lparr>files := files w @ [(p, File len)]\<rparr>))))"

text \<open>
  The entries below a directory \<open>p\<close> have the paths \<open>p/...\<close>; below the root directory
  \<open>/\<close> they have the paths \<open>/...\<close>. A child of \<open>p\<close> is an entry one segment below it.
\<close>

definition dirPrefix :: "string \<Rightarrow> string" where
  "dirPrefix p = (if p = ''/'' then ''/'' else p @ ''/'')"

definition isUnder :: "string \<Rightarrow> string \<Rightarrow> bool" where
  "isUnder p q = (q = p \<or> prefix (dirPrefix p) q)"

definition childName :: "string \<Rightarrow> string \<Rightarrow> string option" where
  "childName p q =
     (let rest = drop (length (dirPrefix p)) q
      in if prefix (dirPrefix p) q \<and> rest \<noteq> [] \<and> CHR ''/'' \<notin> set rest
         then Some rest else None)"

text \<open>\<open>fs.readdir(path)\<close>: the names of the children, in the order of the table.\<close>

definition fs_readdir :: "string \<Rightarrow> string list io" where
  "fs_readdir p w =
     (case map_of (files w) p of
        None \<Rightarrow> (Inl (SystemError ENOENT ''scandir'' p None), logCall (Readdir p) w)
      | Some (File n) \<Rightarrow> (Inl (SystemError ENOTDIR ''scandir'' p None), logCall (Readdir p) w)
      | Some Directory \<Rightarrow>
          (Inr (List.map_filter (\<lambda>(q, n). childName p q) (files w)), logCall (Readdir p) w))"

text \<open>
  \<open>fs.mkdir(path, { recursive: true })\<close> creates the directory and every missing
  ancestor; it succeeds when the directory exists, and fails when the path (\<open>EEXIST\<close>)
  or an ancestor (\<open>ENOTDIR\<close>) is a file. \<open>mkdirSegs\<close> takes the segments of the path,
  the last one first.
\<close>

fun mkdirSegs :: "bool \<Rightarrow> filesystem \<Rightarrow> string list \<Rightarrow> errno + filesystem" where
  "mkdirSegs isTarget fs [] =
     (case map_of fs ''/'' of
        None \<Rightarrow> Inr (fs @ [(''/'', Directory)])
      | Some Directory \<Rightarrow> Inr fs
      | Some (File n) \<Rightarrow> Inl (if isTarget then EEXIST else ENOTDIR))"
| "mkdirSegs isTarget fs (s # segs) =
     (let p = CHR ''/'' # joinSlash (rev (s # segs))
      in case map_of fs p of
           Some Directory \<Rightarrow> Inr fs
         | Some (File n) \<Rightarrow> Inl (if isTarget then EEXIST else ENOTDIR)
         | None \<Rightarrow>
             (case mkdirSegs False fs segs of
                Inl e \<Rightarrow> Inl e
              | Inr fs' \<Rightarrow> Inr (fs' @ [(p, Directory)])))"

definition fs_mkdir_recursive :: "string \<Rightarrow> unit io" where
  "fs_mkdir_recursive p w =
     (case mkdirSegs True (files w) (rev (pathSegments p)) of
        Inl e \<Rightarrow> (Inl (SystemError e ''mkdir'' p None), logCall (Mkdir p) w)
      | Inr fs' \<Rightarrow> (Inr (), logCall (Mkdir p) (w\<lparr>files := fs'\<rparr>)))"

text \<open>
  \<open>fs.rm(path, { recursive: true })\<close> removes the node and everything below it;
  \<open>fs.unlink(path)\<close> removes a file.
\<close>

definition fs_rm_recursive :: "string \<Rightarrow> unit io" where
  "fs_rm_recursive p w =
     (case map_of (files w) p of
        None \<Rightarrow> (Inl (SystemError ENOENT ''rm'' p None), logCall (Rm p) w)
      | Some n \<Rightarrow>
          (Inr (), logCall (Rm p) (w\<lparr>files := filter (\<lambda>(q, n). \<not> isUnder p q) (files w)\<rparr>)))"

definition fs_unlink :: "string \<Rightarrow> unit io" where
  "fs_unlink p w =
     (case map_of (files w) p of
        None \<Rightarrow> (Inl (SystemError ENOENT ''unlink'' p None), logCall (Unlink p) w)
      | Some Directory \<Rightarrow> (Inl (SystemError EISDIR ''unlink'' p None), logCall (Unlink p) w)
      | Some (File n) \<Rightarrow>
          (Inr (), logCall (Unlink p) (w\<lparr>files := filter (\<lambda>(q, n). q \<noteq> p) (files w)\<rparr>)))"

text \<open>
  \<open>fs.rename(oldPath, newPath)\<close>, as \<open>rename(2)\<close> of Linux, in the order of its checks:
  the parents of both paths must be directories, neither path may be the root
  directory (\<open>EBUSY\<close>), and the old path must exist; renaming a path to itself does
  nothing; a directory cannot move below itself (\<open>EINVAL\<close>), and
  nothing can replace a directory that it lies in (\<open>ENOTEMPTY\<close>); an existing file is
  replaced by a file, an existing empty directory by a directory. The node moves with
  everything below it.
\<close>

definition hasChildren :: "filesystem \<Rightarrow> string \<Rightarrow> bool" where
  "hasChildren fs p = list_ex (\<lambda>(q, n). q \<noteq> p \<and> isUnder p q) fs"

definition moveEntries :: "filesystem \<Rightarrow> string \<Rightarrow> string \<Rightarrow> filesystem" where
  "moveEntries fs old new =
     map (\<lambda>(q, n). if isUnder old q then (new @ drop (length old) q, n) else (q, n))
       (filter (\<lambda>(q, n). q \<noteq> new) fs)"

definition renameResult :: "filesystem \<Rightarrow> string \<Rightarrow> string \<Rightarrow> errno + filesystem" where
  "renameResult fs old new =
     (case parentError fs old of
        Some e \<Rightarrow> Inl e
      | None \<Rightarrow>
          (case parentError fs new of
             Some e \<Rightarrow> Inl e
           | None \<Rightarrow>
               if old = ''/'' \<or> new = ''/'' then Inl EBUSY
               else
                 (case map_of fs old of
                    None \<Rightarrow> Inl ENOENT
                  | Some n \<Rightarrow>
                      if old = new then Inr fs
                      else if isUnder old new then Inl EINVAL
                      else if isUnder new old then Inl ENOTEMPTY
                      else
                        (case map_of fs new of
                           None \<Rightarrow> Inr (moveEntries fs old new)
                         | Some Directory \<Rightarrow>
                             if \<not> isDirectory n then Inl EISDIR
                             else if hasChildren fs new then Inl ENOTEMPTY
                             else Inr (moveEntries fs old new)
                         | Some (File k) \<Rightarrow>
                             if isDirectory n then Inl ENOTDIR
                             else Inr (moveEntries fs old new)))))"

definition fs_rename :: "string \<Rightarrow> string \<Rightarrow> unit io" where
  "fs_rename old new w =
     (case renameResult (files w) old new of
        Inl e \<Rightarrow> (Inl (SystemError e ''rename'' old (Some new)), logCall (Rename old new) w)
      | Inr fs' \<Rightarrow> (Inr (), logCall (Rename old new) (w\<lparr>files := fs'\<rparr>)))"

text \<open>
  The message and the code of what was thrown, which the \<open>catch\<close> blocks inspect. A
  system error's message is the code, libuv's description, the system call and the
  quoted paths.
\<close>

fun errnoName :: "errno \<Rightarrow> string" where
  "errnoName ENOENT = ''ENOENT''"
| "errnoName ENOTDIR = ''ENOTDIR''"
| "errnoName EISDIR = ''EISDIR''"
| "errnoName ENOTEMPTY = ''ENOTEMPTY''"
| "errnoName EEXIST = ''EEXIST''"
| "errnoName EINVAL = ''EINVAL''"
| "errnoName EXDEV = ''EXDEV''"
| "errnoName EBUSY = ''EBUSY''"

fun strerror :: "errno \<Rightarrow> string" where
  "strerror ENOENT = ''no such file or directory''"
| "strerror ENOTDIR = ''not a directory''"
| "strerror EISDIR = ''illegal operation on a directory''"
| "strerror ENOTEMPTY = ''directory not empty''"
| "strerror EEXIST = ''file already exists''"
| "strerror EINVAL = ''invalid argument''"
| "strerror EXDEV = ''cross-device link not permitted''"
| "strerror EBUSY = ''resource busy or locked''"

fun message :: "exn \<Rightarrow> string" where
  "message (Error m) = m"
| "message (TypeError m) = m"
| "message (SystemError e syscall p dest) =
     errnoName e @ '': '' @ strerror e @ '', '' @ syscall @ '' '' @ [CHR 0x27] @ p @ [CHR 0x27] @
     (case dest of None \<Rightarrow> [] | Some d \<Rightarrow> '' -> '' @ [CHR 0x27] @ d @ [CHR 0x27])"
| "message (SystemErrorNoPath e syscall) = errnoName e @ '': '' @ strerror e @ '', '' @ syscall"

fun code :: "exn \<Rightarrow> errno option" where
  "code (SystemError e syscall p dest) = Some e"
| "code (SystemErrorNoPath e syscall) = Some e"
| "code e = None"

text \<open>\<open>s.includes(t)\<close>: \<open>t\<close> occurs in \<open>s\<close>.\<close>

definition includesStr :: "string \<Rightarrow> string \<Rightarrow> bool" where
  "includesStr s t = list_ex (prefix t) (suffixes s)"

section \<open>The route handlers of server.js\<close>

text \<open>
  A request field (\<open>req.query.path\<close>, \<open>req.body.name\<close>, ...) is a string or missing
  (\<open>undefined\<close>); \<open>x || ""\<close> and \<open>!x\<close> treat a missing field and the empty string alike.
  Handing a missing field to \<open>path.join\<close> throws a \<open>TypeError\<close>, and handing it to
  \<open>sanitize\<close> throws \<open>Error('Input must be string')\<close>. A response is
  \<open>res.status(n).send(text)\<close>, \<open>res.render("index", { items, currentPath })\<close>, or, after
  headers have been set, \<open>res.send(content)\<close> with the content of a file or a stream of
  the file at a path piped into the response.
\<close>

definition orEmpty :: "string option \<Rightarrow> string" where
  "orEmpty x = (case x of None \<Rightarrow> [] | Some s \<Rightarrow> s)"

definition falsy :: "string option \<Rightarrow> bool" where
  "falsy x = (case x of None \<Rightarrow> True | Some s \<Rightarrow> s = [])"

definition invalidArgType :: exn where
  "invalidArgType =
     TypeError (''The '' @ [CHR 0x22] @ ''path'' @ [CHR 0x22] @
                '' argument must be of type string. Received undefined'')"

definition safePathJS :: "host \<Rightarrow> string option list \<Rightarrow> exn + string" where
  "safePathJS h args =
     (case those args of None \<Rightarrow> Inl invalidArgType | Some paths \<Rightarrow> safePath h paths)"

definition sanitizeJS :: "string option \<Rightarrow> exn + string" where
  "sanitizeJS input =
     (case input of None \<Rightarrow> Inl (Error ''Input must be string'') | Some s \<Rightarrow> Inr (sanitize s))"

record item =
  name :: string
  type :: string
  size' :: "string option"
  path :: string

datatype response =
    Send nat string
  | Render "item list" string
  | SendBuffer "(string \<times> string) list" nat
  | Pipe "(string \<times> string) list" string

subsection \<open>Listing a directory: \<open>getItemInfo\<close> and \<open>GET /\<close>\<close>

text \<open>
  \<^verbatim>\<open>
  async function getItemInfo(itemPath, baseName) {
    const stats = await fs.stat(itemPath);
    const isDir = stats.isDirectory();
    return {
      name: baseName,
      type: isDir ? "directory" : "file",
      size: isDir ? null : formatSize(stats.size),
      modified: stats.mtime.toLocaleString(),
      path: path.relative(STORAGE_DIR, itemPath),
    };
  }
  \<close>
\<close>

definition fileSize :: "node \<Rightarrow> nat" where
  "fileSize stats = (case stats of File n \<Rightarrow> n | Directory \<Rightarrow> 0)"

definition getItemInfo :: "host \<Rightarrow> string \<Rightarrow> string \<Rightarrow> item io" where
  "getItemInfo h itemPath baseName =
     bindIO (fs_stat itemPath) (\<lambda>stats.
       let isDir = isDirectory stats
       in ret \<lparr>name = baseName,
               type = (if isDir then ''directory'' else ''file''),
               size' = (if isDir then None else Some (formatSize (fileSize stats))),
               path = posix_relative (cwd h) (STORAGE_DIR h) itemPath\<rparr>)"

text \<open>
  \<^verbatim>\<open>
  app.get("/", async (req, res) => {
    try {
      const requestPath = req.query.path || "";
      const currentPath = safePath(requestPath);
      const items = [];
      for (const item of await fs.readdir(currentPath)) {
        const itemPath = path.join(currentPath, item);
        items.push(await getItemInfo(itemPath, item));
      }
      items.sort((a, b) => {
        // Directories first, then files
        if (a.type === "directory" && b.type !== "directory") return -1;
        if (a.type !== "directory" && b.type === "directory") return 1;
        return a.name.localeCompare(b.name);
      });
      res.render("index", { items, currentPath: path.relative(STORAGE_DIR, currentPath) });
    } catch (error) {
      console.error("Error reading directory:", error);
      res.status(500).send("Error reading directory");
    }
  });
  \<close>
  \<open>Array.prototype.sort\<close> is stable, and with a consistent comparison function it
  returns the elements in the order of that function; it is modelled as a stable
  insertion sort.
\<close>

fun pushItems :: "host \<Rightarrow> string \<Rightarrow> string list \<Rightarrow> item list \<Rightarrow> item list io" where
  "pushItems h currentPath [] items w = (Inr items, w)"
| "pushItems h currentPath (i # rest) items w =
     (case getItemInfo h (posix_join [currentPath, i]) i w of
        (Inl e, w') \<Rightarrow> (Inl e, w')
      | (Inr info, w') \<Rightarrow> pushItems h currentPath rest (items @ [info]) w')"

definition compareItems :: "host \<Rightarrow> item \<Rightarrow> item \<Rightarrow> int" where
  "compareItems h a b =
     (if type a = ''directory'' \<and> type b \<noteq> ''directory'' then - 1
      else if type a \<noteq> ''directory'' \<and> type b = ''directory'' then 1
      else localeCompare h (name a) (name b))"

fun insertBy :: "('a \<Rightarrow> 'a \<Rightarrow> int) \<Rightarrow> 'a \<Rightarrow> 'a list \<Rightarrow> 'a list" where
  "insertBy cmp x [] = [x]"
| "insertBy cmp x (y # ys) = (if cmp x y \<le> 0 then x # y # ys else y # insertBy cmp x ys)"

definition sortBy :: "('a \<Rightarrow> 'a \<Rightarrow> int) \<Rightarrow> 'a list \<Rightarrow> 'a list" where
  "sortBy cmp xs = foldr (insertBy cmp) xs []"

text \<open>
  The handler after the directory has been read: the loop over the names, the sort and
  the rendering. \<open>list_try\<close> is the body of the \<open>try\<close> block, \<open>list_route\<close> the handler.
\<close>

definition list_items :: "host \<Rightarrow> string \<Rightarrow> string list \<Rightarrow> response io" where
  "list_items h currentPath names =
     bindIO (pushItems h currentPath names []) (\<lambda>items.
       ret (Render (sortBy (compareItems h) items)
                   (posix_relative (cwd h) (STORAGE_DIR h) currentPath)))"

definition list_try :: "host \<Rightarrow> string option \<Rightarrow> response io" where
  "list_try h queryPath =
     (let requestPath = orEmpty queryPath
      in bindIO (liftE (safePath h [requestPath])) (\<lambda>currentPath.
         bindIO (fs_readdir currentPath) (\<lambda>names.
         list_items h currentPath names)))"

definition list_catch :: "exn \<Rightarrow> response io" where
  "list_catch error = ret (Send 500 ''Error reading directory'')"

text \<open>
  A handler answers with what its \<open>try\<close> block or its \<open>catch\<close> block sends. No \<open>catch\<close>
  block here throws; if one did, the error handler of the application would answer.
\<close>

definition respond :: "response io \<Rightarrow> world \<Rightarrow> response \<times> world" where
  "respond m w =
     (case m w of
        (Inr r, w') \<Rightarrow> (r, w')
      | (Inl e, w') \<Rightarrow> (Send 500 ''500 Internal Server Error'', w'))"

definition list_route :: "host \<Rightarrow> string option \<Rightarrow> world \<Rightarrow> response \<times> world" where
  "list_route h queryPath = respond (catchIO (list_try h queryPath) list_catch)"

subsection \<open>\<open>POST /move\<close>\<close>

text \<open>
  \<^verbatim>\<open>
  app.post("/move", async (req, res) => {
    try {
      const { source, target } = req.body;
      if (!source || !target) {
        return res.status(400).send("Source and target paths are required");
      }
      const sourcePath = safePath(source);
      const sourceStats = await fs.stat(sourcePath);
      const sourceBasename = path.basename(sourcePath);
      const targetPath = safePath(target, sourceBasename);
      // Check if target exists and is a directory
      const targetStats = await fs.stat(safePath(target));
      if (!targetStats.isDirectory()) {
        return res.status(400).send("Target must be a directory");
      }
      // Check if destination already exists
      if (existsSync(targetPath)) {
        return res.status(409)
          .send("A file or folder with this name already exists in the destination");
      }
      await fs.rename(sourcePath, targetPath);
      res.status(200).send("Item moved successfully");
    } catch (error) {
      console.error("Move error:", error);
      if (error.message.includes("Path traversal")) {
        res.status(403).send("Invalid path");
      } else if (error.code === "EXDEV") {
        res.status(500).send("Cannot move files between different drives");
      } else {
        res.status(500).send("Error moving item");
      }
    }
  });
  \<close>
\<close>

definition move_try :: "host \<Rightarrow> string option \<Rightarrow> string option \<Rightarrow> response io" where
  "move_try h source target =
     (if falsy source \<or> falsy target
      then ret (Send 400 ''Source and target paths are required'')
      else
        bindIO (liftE (safePathJS h [source])) (\<lambda>sourcePath.
        bindIO (fs_stat sourcePath) (\<lambda>sourceStats.
        let sourceBasename = posix_basename sourcePath in
        bindIO (liftE (safePathJS h [target, Some sourceBasename])) (\<lambda>targetPath.
        bindIO (liftE (safePathJS h [target])) (\<lambda>targetDir.
        bindIO (fs_stat targetDir) (\<lambda>targetStats.
        if \<not> isDirectory targetStats
        then ret (Send 400 ''Target must be a directory'')
        else
          bindIO (existsSync targetPath) (\<lambda>found.
          if found
          then ret (Send 409
                 ''A file or folder with this name already exists in the destination'')
          else
            bindIO (fs_rename sourcePath targetPath) (\<lambda>u.
            ret (Send 200 ''Item moved successfully'')))))))))"

definition move_catch :: "exn \<Rightarrow> response io" where
  "move_catch error =
     (if includesStr (message error) ''Path traversal'' then ret (Send 403 ''Invalid path'')
      else if code error = Some EXDEV
      then ret (Send 500 ''Cannot move files between different drives'')
      else ret (Send 500 ''Error moving item''))"

definition move_route :: "host \<Rightarrow> string option \<Rightarrow> string option \<Rightarrow> world \<Rightarrow> response \<times> world" where
  "move_route h source target = respond (catchIO (move_try h source target) move_catch)"

subsection \<open>\<open>POST /delete\<close>\<close>

text \<open>
  \<^verbatim>\<open>
  app.post("/delete", async (req, res) => {
    try {
      const itemPath = safePath(req.body.path);
      const stats = await fs.stat(itemPath);
      if (stats.isDirectory()) {
        await fs.rm(itemPath, { recursive: true });
      } else {
        await fs.unlink(itemPath);
      }
      res.status(200).send("Item deleted successfully");
    } catch (error) {
      console.error("Delete error:", error);
      res.status(500).send("Error deleting item");
    }
  });
  \<close>
\<close>

definition delete_try :: "host \<Rightarrow> string option \<Rightarrow> response io" where
  "delete_try h bodyPath =
     bindIO (liftE (safePathJS h [bodyPath])) (\<lambda>itemPath.
     bindIO (fs_stat itemPath) (\<lambda>stats.
     bindIO (if isDirectory stats then fs_rm_recursive itemPath else fs_unlink itemPath) (\<lambda>u.
     ret (Send 200 ''Item deleted successfully''))))"

definition delete_catch :: "exn \<Rightarrow> response io" where
  "delete_catch error = ret (Send 500 ''Error deleting item'')"

definition delete_route :: "host \<Rightarrow> string option \<Rightarrow> world \<Rightarrow> response \<times> world" where
  "delete_route h bodyPath = respond (catchIO (delete_try h bodyPath) delete_catch)"

subsection \<open>\<open>POST /create-folder\<close>\<close>

text \<open>
  \<^verbatim>\<open>
  app.post("/create-folder", async (req, res) => {
    try {
      const { name, path: parentPath } = req.body;
      if (!name) {
        return res.status(400).send("Folder name is required");
      }
      const sanitizedName = sanitize(name);
      if (!sanitizedName) {
        return res.status(400).send("Invalid folder name");
      }
      const folderPath = safePath(parentPath || "", sanitizedName);
      // Check if folder already exists
      if (existsSync(folderPath)) {
        return res.status(409).send("Folder already exists");
      }
      await fs.mkdir(folderPath, { recursive: true });
      res.status(200).send("Folder created successfully");
    } catch (error) {
      console.error("Create folder error:", error);
      if (error.message.includes("Path traversal")) {
        res.status(403).send("Invalid folder location");
      } else {
        res.status(500).send("Error creating folder");
      }
    }
  });
  \<close>
\<close>

definition create_folder_try :: "host \<Rightarrow> string option \<Rightarrow> string option \<Rightarrow> response io" where
  "create_folder_try h folderName parentPath =
     (if falsy folderName then ret (Send 400 ''Folder name is required'')
      else
        bindIO (liftE (sanitizeJS folderName)) (\<lambda>sanitizedName.
        if sanitizedName = [] then ret (Send 400 ''Invalid folder name'')
        else
          bindIO (liftE (safePath h [orEmpty parentPath, sanitizedName])) (\<lambda>folderPath.
          bindIO (existsSync folderPath) (\<lambda>found.
          if found then ret (Send 409 ''Folder already exists'')
          else
            bindIO (fs_mkdir_recursive folderPath) (\<lambda>u.
            ret (Send 200 ''Folder created successfully''))))))"

definition create_folder_catch :: "exn \<Rightarrow> response io" where
  "create_folder_catch error =
     (if includesStr (message error) ''Path traversal''
      then ret (Send 403 ''Invalid folder location'')
      else ret (Send 500 ''Error creating folder''))"

definition create_folder_route ::
  "host \<Rightarrow> string option \<Rightarrow> string option \<Rightarrow> world \<Rightarrow> response \<times> world" where
  "create_folder_route h folderName parentPath =
     respond (catchIO (create_folder_try h folderName parentPath) create_folder_catch)"

subsection \<open>\<open>POST /rename\<close>\<close>

text \<open>
  \<^verbatim>\<open>
  app.post("/rename", async (req, res) => {
    try {
      const { oldPath, newName } = req.body;
      const sanitizedName = sanitize(newName);
      const oldFullPath = safePath(oldPath);
      const newFullPath = safePath(path.dirname(oldPath), sanitizedName);
      await fs.rename(oldFullPath, newFullPath);
      res.status(200).send("Item renamed successfully");
    } catch (error) {
      console.error("Rename error:", error);
      res.status(500).send("Error renaming item");
    }
  });
  \<close>
\<close>

definition rename_try :: "host \<Rightarrow> string option \<Rightarrow> string option \<Rightarrow> response io" where
  "rename_try h oldPath newName =
     bindIO (liftE (sanitizeJS newName)) (\<lambda>sanitizedName.
     bindIO (liftE (safePathJS h [oldPath])) (\<lambda>oldFullPath.
     bindIO (liftE (safePath h [posix_dirname (orEmpty oldPath), sanitizedName])) (\<lambda>newFullPath.
     bindIO (fs_rename oldFullPath newFullPath) (\<lambda>u.
     ret (Send 200 ''Item renamed successfully'')))))"

definition rename_catch :: "exn \<Rightarrow> response io" where
  "rename_catch error = ret (Send 500 ''Error renaming item'')"

definition rename_route ::
  "host \<Rightarrow> string option \<Rightarrow> string option \<Rightarrow> world \<Rightarrow> response \<times> world" where
  "rename_route h oldPath newName = respond (catchIO (rename_try h oldPath newName) rename_catch)"

subsection \<open>\<open>GET /download\<close>\<close>

text \<open>
  \<^verbatim>\<open>
  app.get("/download", async (req, res) => {
    try {
      const filePath = safePath(req.query.path || "");
      const stats = await fs.stat(filePath);
      if (!stats.isFile()) {
        return res.status(400).send("Not a file");
      }
      const mimeType = mime.lookup(filePath) || "application/octet-stream";
      res.setHeader("Content-Type", mimeType);
      res.setHeader(
        "Content-Disposition",
        `attachment; filename="${path.basename(filePath)}"`,
      );
      createReadStream(filePath).pipe(res);
    } catch (error) {
      console.error("Download error:", error);
      res.status(500).send("Error downloading file");
    }
  });
  \<close>
\<close>

definition mimeTypeOf :: "host \<Rightarrow> string \<Rightarrow> string" where
  "mimeTypeOf h filePath =
     (case mimeLookup h filePath of
        None \<Rightarrow> ''application/octet-stream''
      | Some t \<Rightarrow> if t = [] then ''application/octet-stream'' else t)"

definition download_try :: "host \<Rightarrow> string option \<Rightarrow> response io" where
  "download_try h queryPath =
     bindIO (liftE (safePath h [orEmpty queryPath])) (\<lambda>filePath.
     bindIO (fs_stat filePath) (\<lambda>stats.
     if \<not> isFile stats then ret (Send 400 ''Not a file'')
     else
       (let mimeType = mimeTypeOf h filePath;
            headers =
              [(''Content-Type'', mimeType),
               (''Content-Disposition'',
                ''attachment; filename='' @ [CHR 0x22] @ posix_basename filePath @ [CHR 0x22])]
        in bindIO (createReadStream filePath) (\<lambda>u.
           ret (Pipe headers filePath)))))"

definition download_catch :: "exn \<Rightarrow> response io" where
  "download_catch error = ret (Send 500 ''Error downloading file'')"

definition download_route :: "host \<Rightarrow> string option \<Rightarrow> world \<Rightarrow> response \<times> world" where
  "download_route h queryPath = respond (catchIO (download_try h queryPath) download_catch)"

subsection \<open>\<open>GET /preview\<close>\<close>

text \<open>
  \<^verbatim>\<open>
  app.get("/preview", async (req, res) => {
    try {
      const filePath = safePath(req.query.path);
      const stats = await fs.stat(filePath);
      if (!stats.isFile()) {
        return res.status(400).send("Not a file");
      }
      // Get MIME type
      const mimeType = mime.lookup(filePath) || "application/octet-stream";
      res.setHeader("Content-Type", mimeType);
      // For text files and images under 5MB, send the full file
      if (
        (mimeType.startsWith("text/") ||
          mimeType.startsWith("image/") ||
          mimeType.includes("javascript")) &&
        stats.size < 5 * 1024 * 1024
      ) {
        const content = await fs.readFile(filePath);
        return res.send(content);
      }
      // For larger files and other types, stream the content
      createReadStream(filePath).pipe(res);
    } catch (error) {
      console.error("Preview error:", error);
      res.status(500).send("Error generating preview");
    }
  });
  \<close>
\<close>

definition preview_try :: "host \<Rightarrow> string option \<Rightarrow> response io" where
  "preview_try h queryPath =
     bindIO (liftE (safePathJS h [queryPath])) (\<lambda>filePath.
     bindIO (fs_stat filePath) (\<lambda>stats.
     if \<not> isFile stats then ret (Send 400 ''Not a file'')
     else
       (let mimeType = mimeTypeOf h filePath;
            headers = [(''Content-Type'', mimeType)]
        in if (prefix ''text/'' mimeType \<or> prefix ''image/'' mimeType \<or>
               includesStr mimeType ''javascript'') \<and>
              fileSize stats < 5 * 1024 * 1024
           then bindIO (fs_readFile filePath) (\<lambda>content. ret (SendBuffer headers content))
           else bindIO (createReadStream filePath) (\<lambda>u. ret (Pipe headers filePath)))))"

definition preview_catch :: "exn \<Rightarrow> response io" where
  "preview_catch error = ret (Send 500 ''Error generating preview'')"

definition preview_route :: "host \<Rightarrow> string option \<Rightarrow> world \<Rightarrow> response \<times> world" where
  "preview_route h queryPath = respond (catchIO (preview_try h queryPath) preview_catch)"

subsection \<open>\<open>POST /upload\<close>\<close>

text \<open>
  \<^verbatim>\<open>
  app.use(
    fileUpload({
      createParentPath: true,
      limits: { fileSize: 50 * 1024 * 1024 }, // 50MB limit
    }),
  );

  app.post("/upload", async (req, res) => {
    try {
      if (!req.files || Object.keys(req.files).length === 0) {
        return res.status(400).send("No files were uploaded.");
      }
      const targetDir = safePath(req.query.path || "");
      const files = Array.isArray(req.files.files)
        ? req.files.files
        : [req.files.files];
      for (const file of files) {
        const sanitizedName = sanitize(file.name);
        const targetPath = path.join(targetDir, sanitizedName);
        await file.mv(targetPath);
      }
      res.status(200).send("Files uploaded successfully");
    } catch (error) {
      console.error("Upload error:", error);
      res.status(500).send("Error uploading files");
    }
  });
  \<close>
  \<open>req.files\<close> is set by the middleware of the package \<open>express-fileupload\<close>: it is
  missing when the request carries no file, and otherwise maps every form field to
  the files sent under it, one file or an array of them, modelled alike as a list. An
  uploaded file has a name and its bytes, of which the length is kept. With
  \<open>createParentPath\<close>, \<open>file.mv(filePath)\<close> first makes sure of the parent directory,
  \<^verbatim>\<open>
  const checkAndMakeDir = (fileUploadOptions, filePath) => {
    if (!fileUploadOptions) return false;
    if (!fileUploadOptions.createParentPath) return false;
    if (!filePath) return false;
    const parentPath = path.dirname(filePath);
    if (!fs.existsSync(parentPath)) fs.mkdirSync(parentPath, { recursive: true });
    return fs.existsSync(parentPath);
  };
  \<close>
  and then writes the bytes through \<open>fs.createWriteStream(filePath)\<close>; an error of the
  directory or of the stream rejects the promise that the handler awaits.
\<close>

record uploaded =
  upload_name :: string
  upload_length :: nat

definition checkAndMakeDir :: "string \<Rightarrow> bool io" where
  "checkAndMakeDir filePath =
     (if filePath = [] then ret False
      else
        (let parentPath = posix_dirname filePath
         in bindIO (existsSync parentPath) (\<lambda>found.
            bindIO (if \<not> found then fs_mkdir_recursive parentPath else ret ()) (\<lambda>u.
            existsSync parentPath))))"

definition file_mv :: "uploaded \<Rightarrow> string \<Rightarrow> unit io" where
  "file_mv file filePath =
     bindIO (checkAndMakeDir filePath) (\<lambda>made.
     writeStream filePath (upload_length file))"

text \<open>
  The loop over the files of the field \<open>files\<close>. When the request has files but none
  under that field, the array holds \<open>undefined\<close>, and reading its \<open>name\<close> throws.
\<close>

fun moveFiles :: "string \<Rightarrow> uploaded option list \<Rightarrow> unit io" where
  "moveFiles targetDir [] w = (Inr (), w)"
| "moveFiles targetDir (file # rest) w =
     (case file of
        None \<Rightarrow>
          (Inl (TypeError (''Cannot read properties of undefined (reading '' @ [CHR 0x27] @
                           ''name'' @ [CHR 0x27] @ '')'')), w)
      | Some f \<Rightarrow>
          (let sanitizedName = sanitize (upload_name f);
               targetPath = posix_join [targetDir, sanitizedName]
           in case file_mv f targetPath w of
                (Inl e, w') \<Rightarrow> (Inl e, w')
              | (Inr u, w') \<Rightarrow> moveFiles targetDir rest w'))"

definition upload_try ::
  "host \<Rightarrow> (string \<times> uploaded list) list option \<Rightarrow> string option \<Rightarrow> response io" where
  "upload_try h reqFiles queryPath =
     (case reqFiles of
        None \<Rightarrow> ret (Send 400 ''No files were uploaded.'')
      | Some formFields \<Rightarrow>
          if formFields = [] then ret (Send 400 ''No files were uploaded.'')
          else
            bindIO (liftE (safePath h [orEmpty queryPath])) (\<lambda>targetDir.
            let fileList = (case map_of formFields ''files'' of
                              None \<Rightarrow> [None]
                            | Some fs \<Rightarrow> map Some fs)
            in bindIO (moveFiles targetDir fileList) (\<lambda>u.
               ret (Send 200 ''Files uploaded successfully''))))"

definition upload_catch :: "exn \<Rightarrow> response io" where
  "upload_catch error = ret (Send 500 ''Error uploading files'')"

definition upload_route ::
  "host \<Rightarrow> (string \<times> uploaded list) list option \<Rightarrow> string option \<Rightarrow> world \<Rightarrow>
   response \<times> world" where
  "upload_route h reqFiles queryPath =
     respond (catchIO (upload_try h reqFiles queryPath) upload_catch)"

section \<open>A concrete world for the examples\<close>

definition demoFiles :: filesystem where
  "demoFiles =
     [(''/'', Directory), (''/srv'', Directory), (''/srv/storage'', Directory),
      (''/srv/storage/docs'', Directory), (''/srv/storage/docs/report.txt'', File 1536),
      (''/srv/storage/a.txt'', File 0), (''/srv/storage/archive'', Directory),
      (''/srv/storage/archive/a.txt'', File 10), (''/srv/storage2'', Directory)]"

definition demoWorld :: world where
  "demoWorld = \<lparr>files = demoFiles, calls = []\<rparr>"

text \<open>
  ECMAScript requires \<open>localeCompare\<close> to be a consistent comparison function, a total
  order on strings up to equivalence: of two strings one does not come after the other,
  and "does not come after" is transitive.
\<close>

definition consistentComparator :: "('a \<Rightarrow> 'a \<Rightarrow> int) \<Rightarrow> bool" where
  "consistentComparator cmp =
     ((\<forall>a b. cmp a b \<le> 0 \<or> cmp b a \<le> 0) \<and>
      (\<forall>a b c. cmp a b \<le> 0 \<and> cmp b c \<le> 0 \<longrightarrow> cmp a c \<le> 0))"

text \<open>
  The tables of files considered are those whose paths are all in normal form (\<open>canonicalPath\<close>), as
  the paths of a filesystem are.
\<close>

definition wellFormed :: "filesystem \<Rightarrow> bool" where
  "wellFormed fs = list_all (\<lambda>(q, n). canonicalPath q) fs"

subsection \<open>Properties of \<open>formatSize\<close>\<close>

lemma show_nat_small: "n < 10 \<Longrightarrow> show_nat n = [digit_char n]"
  by (simp add: show_nat.simps)

lemma show_nat_big:
  "10 \<le> n \<Longrightarrow> show_nat n = show_nat (n div 10) @ [digit_char (n mod 10)]"
  by (subst show_nat.simps) simp

lemma show_nat_nonempty: "show_nat n \<noteq> []"
  by (subst show_nat.simps) simp

lemma toFixed_one_decimal:
  "toFixed x 1 =
     (let n = nat \<lfloor>x * 10 + 1 / 2\<rfloor>
      in show_nat (n div 10) @ ''.'' @ [digit_char (n mod 10)])"
proof (cases "nat \<lfloor>x * 10 + 1 / 2\<rfloor> < 10")
  case True
  then show ?thesis
    by (simp add: toFixed_def Let_def show_nat_small digit_char_def)
next
  case False
  then have big: "10 \<le> nat \<lfloor>x * 10 + 1 / 2\<rfloor>"
    by simp
  have len: "0 < length (show_nat (nat \<lfloor>x * 10 + 1 / 2\<rfloor> div 10))"
    using show_nat_nonempty by simp
  show ?thesis
    using len by (simp add: toFixed_def Let_def show_nat_big [OF big])
qed

lemma formatSize_loop_stop:
  "sz < 1024 \<or> 4 \<le> k \<Longrightarrow> formatSize_loop sz k = (sz, k)"
  by (subst formatSize_loop.simps) (auto simp: units_def)

lemma formatSize_loop_step:
  "1024 \<le> sz \<Longrightarrow> k < 4 \<Longrightarrow> formatSize_loop sz k = formatSize_loop (sz / 1024) (Suc k)"
  by (subst formatSize_loop.simps) (simp add: units_def)

lemma formatSize_loop_0: "sz < 1024 \<Longrightarrow> formatSize_loop sz 0 = (sz, 0)"
  by (simp add: formatSize_loop_stop)

lemma formatSize_loop_1:
  "1024 \<le> sz \<Longrightarrow> sz < 1024 ^ 2 \<Longrightarrow> formatSize_loop sz 0 = (sz / 1024 ^ 1, 1)"
  by (simp add: formatSize_loop_step formatSize_loop_stop)

lemma formatSize_loop_2:
  "1024 ^ 2 \<le> sz \<Longrightarrow> sz < 1024 ^ 3 \<Longrightarrow> formatSize_loop sz 0 = (sz / 1024 ^ 2, 2)"
  by (simp add: formatSize_loop_step formatSize_loop_stop numeral_2_eq_2)

lemma formatSize_loop_3:
  "1024 ^ 3 \<le> sz \<Longrightarrow> sz < 1024 ^ 4 \<Longrightarrow> formatSize_loop sz 0 = (sz / 1024 ^ 3, 3)"
  by (simp add: formatSize_loop_step formatSize_loop_stop numeral_3_eq_3)

lemma formatSize_loop_4:
  "1024 ^ 4 \<le> sz \<Longrightarrow> formatSize_loop sz 0 = (sz / 1024 ^ 4, 4)"
  by (simp add: formatSize_loop_step formatSize_loop_stop numeral_3_eq_3 eval_nat_numeral)

lemma formatSize_1536: "formatSize 1536 = ''1.5 KB''"
proof -
  have "formatSize_loop 1536 0 = formatSize_loop (3 / 2) 1"
    using formatSize_loop_step [of 1536 0] by simp
  also have "\<dots> = (3 / 2, 1)"
    by (simp add: formatSize_loop_stop)
  finally have loop: "formatSize_loop 1536 0 = (3 / 2, 1)" .
  have "\<lfloor>(31 / 2 :: rat)\<rfloor> = 15"
    by (simp add: floor_unique)
  then have fl: "nat \<lfloor>(3 / 2 :: rat) * 10 + 1 / 2\<rfloor> = 15"
    by simp
  have "toFixed (3 / 2) 1 = ''1.5''"
    unfolding toFixed_one_decimal fl by (simp add: show_nat_small digit_char_def)
  then show ?thesis
    by (simp add: formatSize_def loop units_def del: One_nat_def)
qed

lemma formatSize_0: "formatSize 0 = ''0.0 B''"
proof -
  have loop: "formatSize_loop 0 0 = (0, 0)"
    by (simp add: formatSize_loop_stop)
  have "\<lfloor>(1 / 2 :: rat)\<rfloor> = 0"
    by (simp add: floor_unique)
  then have fl: "nat \<lfloor>(0 :: rat) * 10 + 1 / 2\<rfloor> = 0"
    by simp
  have "toFixed 0 1 = ''0.0''"
    unfolding toFixed_one_decimal fl by (simp add: show_nat_small digit_char_def)
  then show ?thesis
    by (simp add: formatSize_def loop units_def del: One_nat_def)
qed

lemma formatSize_unit:
  "\<exists>k \<le> 4.
      formatSize bytes = toFixed (of_nat bytes / 1024 ^ k) 1 @ '' '' @ units ! k \<and>
      (k < 4 \<longrightarrow> bytes < 1024 ^ (k + 1)) \<and>
      (0 < k \<longrightarrow> 1024 ^ k \<le> bytes)"
proof -
  consider (b) "bytes < 1024" | (kb) "1024 \<le> bytes" "bytes < 1024 ^ 2"
    | (mb) "1024 ^ 2 \<le> bytes" "bytes < 1024 ^ 3"
    | (gb) "1024 ^ 3 \<le> bytes" "bytes < 1024 ^ 4" | (tb) "1024 ^ 4 \<le> bytes"
    by linarith
  then show ?thesis
  proof cases
    case b
    then have "formatSize_loop (of_nat bytes) 0 = (of_nat bytes / 1024 ^ 0, 0)"
      by (simp add: formatSize_loop_0)
    with b show ?thesis
      by (intro exI [of _ 0]) (simp add: formatSize_def)
  next
    case kb
    then have "(1024 :: rat) \<le> of_nat bytes" "(of_nat bytes :: rat) < 1024 ^ 2"
      by (simp_all add: of_nat_less_numeral_power_cancel_iff)
    then have "formatSize_loop (of_nat bytes) 0 = (of_nat bytes / 1024 ^ 1, 1)"
      by (rule formatSize_loop_1)
    with kb show ?thesis
      by (intro exI [of _ 1]) (simp add: formatSize_def)
  next
    case mb
    then have "(1024 :: rat) ^ 2 \<le> of_nat bytes" "(of_nat bytes :: rat) < 1024 ^ 3"
      by (simp_all add: of_nat_less_numeral_power_cancel_iff
                        numeral_power_le_of_nat_cancel_iff)
    then have "formatSize_loop (of_nat bytes) 0 = (of_nat bytes / 1024 ^ 2, 2)"
      by (rule formatSize_loop_2)
    with mb show ?thesis
      by (intro exI [of _ 2]) (simp add: formatSize_def)
  next
    case gb
    then have "(1024 :: rat) ^ 3 \<le> of_nat bytes" "(of_nat bytes :: rat) < 1024 ^ 4"
      by (simp_all add: of_nat_less_numeral_power_cancel_iff
                        numeral_power_le_of_nat_cancel_iff)
    then have "formatSize_loop (of_nat bytes) 0 = (of_nat bytes / 1024 ^ 3, 3)"
      by (rule formatSize_loop_3)
    with gb show ?thesis
      by (intro exI [of _ 3]) (simp add: formatSize_def)
  next
    case tb
    then have "(1024 :: rat) ^ 4 \<le> of_nat bytes"
      by (simp add: numeral_power_le_of_nat_cancel_iff)
    then have "formatSize_loop (of_nat bytes) 0 = (of_nat bytes / 1024 ^ 4, 4)"
      by (rule formatSize_loop_4)
    with tb show ?thesis
      by (intro exI [of _ 4]) (simp add: formatSize_def)
  qed
qed

lemma toFixed_one_decimal_digits:
  assumes "0 \<le> x"
  shows "\<exists>ip d. d < 10 \<and> toFixed x 1 = show_nat ip @ ''.'' @ [digit_char d] \<and>
           int (10 * ip + d) = \<lfloor>x * 10 + 1 / 2\<rfloor>"
proof -
  from assms have nn: "0 \<le> \<lfloor>x * 10 + 1 / 2\<rfloor>" by simp
  define n where "n = nat \<lfloor>x * 10 + 1 / 2\<rfloor>"
  have "toFixed x 1 = show_nat (n div 10) @ ''.'' @ [digit_char (n mod 10)]"
    unfolding toFixed_one_decimal n_def Let_def ..
  moreover have "int (10 * (n div 10) + n mod 10) = \<lfloor>x * 10 + 1 / 2\<rfloor>"
    using nn by (simp add: n_def)
  moreover have "n mod 10 < 10" by simp
  ultimately show ?thesis by blast
qed

lemma formatSize_from_loop:
  assumes "formatSize_loop (of_nat bytes) 0 = (x, k)" and "\<lfloor>x * 10 + 1 / 2\<rfloor> = int n"
  shows "formatSize bytes =
           show_nat (n div 10) @ ''.'' @ [digit_char (n mod 10)] @ '' '' @ units ! k"
proof -
  from assms(2) have "nat \<lfloor>x * 10 + 1 / 2\<rfloor> = n" by simp
  then have "toFixed x 1 = show_nat (n div 10) @ ''.'' @ [digit_char (n mod 10)]"
    unfolding toFixed_one_decimal by (simp add: Let_def)
  with assms(1) show ?thesis
    by (simp add: formatSize_def del: One_nat_def)
qed

lemma formatSize_1023: "formatSize 1023 = ''1023.0 B''"
proof -
  have loop: "formatSize_loop (of_nat 1023) 0 = (1023, 0)"
    by (simp add: formatSize_loop_stop)
  have fl: "\<lfloor>(1023 :: rat) * 10 + 1 / 2\<rfloor> = int 10230"
    by (simp add: floor_unique)
  show ?thesis
    unfolding formatSize_from_loop [OF loop fl]
    by (simp add: show_nat_small show_nat_big digit_char_def units_def)
qed

lemma formatSize_1588: "formatSize 1588 = ''1.6 KB''"
proof -
  have loop: "formatSize_loop (of_nat 1588) 0 = (397 / 256, 1)"
    using formatSize_loop_1 [of 1588] by simp
  have fl: "\<lfloor>(397 / 256 :: rat) * 10 + 1 / 2\<rfloor> = int 16"
    by (simp add: floor_unique)
  show ?thesis
    unfolding formatSize_from_loop [OF loop fl]
    by (simp add: show_nat_small digit_char_def units_def del: One_nat_def)
qed

lemma formatSize_MB: "formatSize 1048576 = ''1.0 MB''"
proof -
  have loop: "formatSize_loop (of_nat 1048576) 0 = (1, 2)"
    using formatSize_loop_2 [of 1048576] by simp
  have fl: "\<lfloor>(1 :: rat) * 10 + 1 / 2\<rfloor> = int 10"
    by (simp add: floor_unique)
  show ?thesis
    unfolding formatSize_from_loop [OF loop fl]
    by (simp add: show_nat_small digit_char_def units_def)
qed

lemma formatSize_GB: "formatSize 1073741824 = ''1.0 GB''"
proof -
  have loop: "formatSize_loop (of_nat 1073741824) 0 = (1, 3)"
    using formatSize_loop_3 [of 1073741824] by simp
  have fl: "\<lfloor>(1 :: rat) * 10 + 1 / 2\<rfloor> = int 10"
    by (simp add: floor_unique)
  show ?thesis
    unfolding formatSize_from_loop [OF loop fl]
    by (simp add: show_nat_small digit_char_def units_def)
qed

lemma formatSize_TB: "formatSize 1099511627776 = ''1.0 TB''"
proof -
  have loop: "formatSize_loop (of_nat 1099511627776) 0 = (1, 4)"
    using formatSize_loop_4 [of 1099511627776] by simp
  have fl: "\<lfloor>(1 :: rat) * 10 + 1 / 2\<rfloor> = int 10"
    by (simp add: floor_unique)
  show ?thesis
    unfolding formatSize_from_loop [OF loop fl]
    by (simp add: show_nat_small digit_char_def units_def)
qed

lemma formatSize_1024_TB: "formatSize 1125899906842624 = ''1024.0 TB''"
proof -
  have loop: "formatSize_loop (of_nat 1125899906842624) 0 = (1024, 4)"
    using formatSize_loop_4 [of 1125899906842624] by simp
  have fl: "\<lfloor>(1024 :: rat) * 10 + 1 / 2\<rfloor> = int 10240"
    by (simp add: floor_unique)
  show ?thesis
    unfolding formatSize_from_loop [OF loop fl]
    by (simp add: show_nat_small show_nat_big digit_char_def units_def)
qed

lemma units_nth:
  "k \<le> 4 \<Longrightarrow> units ! k = [''B'', ''KB'', ''MB'', ''GB'', ''TB''] ! k"
  by (simp add: units_def)

lemma of_char_digit_char: "d < 10 \<Longrightarrow> (of_char (digit_char d) :: nat) = 48 + d"
proof -
  assume "d < 10"
  then have "d \<in> {0, 1, 2, 3, 4, 5, 6, 7, 8, 9}" by auto
  then show ?thesis
    by (auto simp: digit_char_def)
qed

lemma digit_char_digit: "d < 10 \<Longrightarrow> digit_char d \<in> set ''0123456789''"
  unfolding digit_char_def by (rule nth_mem) simp

lemma show_nat_decimal:
  "foldl (\<lambda>a c. 10 * a + (of_char c - 48)) 0 (show_nat n) = n \<and>
   list_all (\<lambda>c. c \<in> set ''0123456789'') (show_nat n)"
proof (induction n rule: show_nat.induct)
  case (1 n)
  show ?case
  proof (cases "n < 10")
    case True
    then show ?thesis
      using digit_char_digit [OF True]
      by (simp add: show_nat_small of_char_digit_char del: set_simps)
  next
    case False
    then have big: "10 \<le> n" by simp
    have d: "n mod 10 < 10" by simp
    from 1 False
    have ih: "foldl (\<lambda>a c. 10 * a + (of_char c - 48)) 0 (show_nat (n div 10)) = n div 10"
      "list_all (\<lambda>c. c \<in> set ''0123456789'') (show_nat (n div 10))"
      by simp_all
    show ?thesis
      unfolding show_nat_big [OF big]
      using ih digit_char_digit [OF d]
      by (simp add: of_char_digit_char [OF d] del: set_simps)
  qed
qed

text \<open>
  Claim C7. The formatter divides the byte count by 1024 once per unit step through
  B, KB, MB, GB, TB: the result is \<open>bytes / 1024 ^ k\<close> printed by \<open>toFixed(1)\<close>,
  a space and the \<open>k\<close>-th of the five unit names, where \<open>k\<close> is the first index at which
  the scaled value is below 1024, and \<open>k = 4\<close> (TB, the largest unit) when there is
  none. \<open>toFixed(1)\<close> prints the integer part in decimal, a point and exactly one
  decimal digit, the value rounded to the nearest tenth. 1536 bytes format as \<open>1.5 KB\<close>
  and 0 bytes as \<open>0.0 B\<close>; 1023 bytes are not scaled; \<open>1024 ^ 2\<close>, \<open>1024 ^ 3\<close> and
  \<open>1024 ^ 4\<close> bytes are \<open>1.0 MB\<close>, \<open>1.0 GB\<close> and \<open>1.0 TB\<close>, and \<open>1024 ^ 5\<close> bytes are
  \<open>1024.0 TB\<close>.
\<close>

theorem formatSize_scales_by_1024:
  "formatSize 1536 = ''1.5 KB'' \<and> formatSize 0 = ''0.0 B'' \<and>
   formatSize 1023 = ''1023.0 B'' \<and> formatSize 1588 = ''1.6 KB'' \<and>
   formatSize 1048576 = ''1.0 MB'' \<and> formatSize 1073741824 = ''1.0 GB'' \<and>
   formatSize 1099511627776 = ''1.0 TB'' \<and> formatSize 1125899906842624 = ''1024.0 TB'' \<and>
   (\<exists>k \<le> 4.
      formatSize bytes =
        toFixed (of_nat bytes / 1024 ^ k) 1 @ '' '' @ [''B'', ''KB'', ''MB'', ''GB'', ''TB''] ! k \<and>
      (k < 4 \<longrightarrow> bytes < 1024 ^ (k + 1)) \<and>
      (0 < k \<longrightarrow> 1024 ^ k \<le> bytes)) \<and>
   (0 \<le> x \<longrightarrow>
      (\<exists>ip d. d < 10 \<and> toFixed x 1 = show_nat ip @ ''.'' @ [''0123456789'' ! d] \<and>
         int (10 * ip + d) = \<lfloor>x * 10 + 1 / 2\<rfloor> \<and>
         foldl (\<lambda>a c. 10 * a + (of_char c - 48)) 0 (show_nat ip) = ip \<and>
         list_all (\<lambda>c. c \<in> set ''0123456789'') (show_nat ip)))"
proof -
  from formatSize_unit [of bytes] obtain k where k: "k \<le> 4"
    "formatSize bytes = toFixed (of_nat bytes / 1024 ^ k) 1 @ '' '' @ units ! k"
    "k < 4 \<longrightarrow> bytes < 1024 ^ (k + 1)" "0 < k \<longrightarrow> 1024 ^ k \<le> bytes"
    by (elim exE conjE)
  from k(2) have "formatSize bytes =
      toFixed (of_nat bytes / 1024 ^ k) 1 @ '' '' @ [''B'', ''KB'', ''MB'', ''GB'', ''TB''] ! k"
    unfolding units_nth [OF k(1)] .
  with k(1,3,4) have scale: "\<exists>k \<le> 4.
      formatSize bytes =
        toFixed (of_nat bytes / 1024 ^ k) 1 @ '' '' @ [''B'', ''KB'', ''MB'', ''GB'', ''TB''] ! k \<and>
      (k < 4 \<longrightarrow> bytes < 1024 ^ (k + 1)) \<and>
      (0 < k \<longrightarrow> 1024 ^ k \<le> bytes)"
    by (intro exI [of _ k] conjI)
  have digits: "\<exists>ip d. d < 10 \<and> toFixed x 1 = show_nat ip @ ''.'' @ [''0123456789'' ! d] \<and>
         int (10 * ip + d) = \<lfloor>x * 10 + 1 / 2\<rfloor> \<and>
         foldl (\<lambda>a c. 10 * a + (of_char c - 48)) 0 (show_nat ip) = ip \<and>
         list_all (\<lambda>c. c \<in> set ''0123456789'') (show_nat ip)" if "0 \<le> x"
  proof -
    from toFixed_one_decimal_digits [OF that] obtain ip d where
      "d < 10" "toFixed x 1 = show_nat ip @ ''.'' @ [digit_char d]"
      "int (10 * ip + d) = \<lfloor>x * 10 + 1 / 2\<rfloor>"
      by (elim exE conjE)
    then show ?thesis
      using show_nat_decimal [of ip]
      by (intro exI [of _ ip] exI [of _ d]) (simp add: digit_char_def del: set_simps foldl.simps)
  qed
  show ?thesis
    by (intro conjI impI formatSize_1536 formatSize_0 formatSize_1023 formatSize_1588
          formatSize_MB formatSize_GB formatSize_TB formatSize_1024_TB scale digits)
qed

theorem formatSize_scales_by_1024_witness:
  "formatSize 2048 = toFixed 2 1 @ '' KB'' \<and>
   (\<exists>ip d. d < 10 \<and> toFixed (3 / 2) 1 = show_nat ip @ ''.'' @ [''0123456789'' ! d] \<and>
      int (10 * ip + d) = 15)"
proof -
  note inst = formatSize_scales_by_1024 [of 2048 "3 / 2"]
  from inst have "\<exists>k \<le> 4.
      formatSize 2048 =
        toFixed (of_nat 2048 / 1024 ^ k) 1 @ '' '' @ [''B'', ''KB'', ''MB'', ''GB'', ''TB''] ! k \<and>
      (k < 4 \<longrightarrow> (2048 :: nat) < 1024 ^ (k + 1)) \<and> (0 < k \<longrightarrow> (1024 :: nat) ^ k \<le> 2048)"
    by (elim conjE)
  then obtain k where k: "k \<le> 4"
    "formatSize 2048 =
       toFixed (of_nat 2048 / 1024 ^ k) 1 @ '' '' @ [''B'', ''KB'', ''MB'', ''GB'', ''TB''] ! k"
    "k < 4 \<longrightarrow> (2048 :: nat) < 1024 ^ (k + 1)" "0 < k \<longrightarrow> (1024 :: nat) ^ k \<le> 2048"
    by (elim exE conjE)
  have "k \<noteq> 0"
  proof
    assume "k = 0"
    with k(3) show False by simp
  qed
  moreover have "k < 2"
  proof (rule ccontr)
    assume "\<not> k < 2"
    then have "2 \<le> k" by simp
    then have "(1024 :: nat) ^ 2 \<le> 1024 ^ k"
      by (intro power_increasing) simp_all
    with k(4) \<open>2 \<le> k\<close> show False by simp
  qed
  ultimately have "k = 1" by simp
  with k(2) have kb: "formatSize 2048 = toFixed 2 1 @ '' KB''"
    by (simp del: One_nat_def)
  have "\<lfloor>(31 / 2 :: rat)\<rfloor> = 15"
    by (simp add: floor_unique)
  then have fl: "\<lfloor>(3 / 2 :: rat) * 10 + 1 / 2\<rfloor> = 15"
    by simp
  from inst
  have "\<exists>ip d. d < 10 \<and> toFixed (3 / 2) 1 = show_nat ip @ ''.'' @ [''0123456789'' ! d] \<and>
      int (10 * ip + d) = \<lfloor>(3 / 2 :: rat) * 10 + 1 / 2\<rfloor> \<and>
      foldl (\<lambda>a c. 10 * a + (of_char c - 48)) 0 (show_nat ip) = ip \<and>
      list_all (\<lambda>c. c \<in> set ''0123456789'') (show_nat ip)"
    by (elim conjE) simp
  then obtain ip d where "d < 10"
    "toFixed (3 / 2) 1 = show_nat ip @ ''.'' @ [''0123456789'' ! d]"
    "int (10 * ip + d) = \<lfloor>(3 / 2 :: rat) * 10 + 1 / 2\<rfloor>"
    by (elim exE conjE)
  with fl have "\<exists>ip d. d < 10 \<and> toFixed (3 / 2) 1 = show_nat ip @ ''.'' @ [''0123456789'' ! d] \<and>
      int (10 * ip + d) = 15"
    by (intro exI [of _ ip] exI [of _ d]) simp
  with kb show ?thesis
    by (intro conjI)
qed
section \<open>Properties of the path functions\<close>

lemma splitSlash_not_Nil [simp]: "splitSlash s \<noteq> []"
  by (induction s) (auto split: list.splits)

lemma splitSlash_no_slash: "t \<in> set (splitSlash s) \<Longrightarrow> CHR ''/'' \<notin> set t"
  by (induction s arbitrary: t) (auto split: if_splits list.splits)

lemma splitSlash_append:
  "splitSlash (s @ CHR ''/'' # t) = splitSlash s @ splitSlash t"
  by (induction s) (auto split: list.splits)

lemma splitSlash_id: "CHR ''/'' \<notin> set s \<Longrightarrow> splitSlash s = [s]"
  by (induction s) auto

lemma splitSlash_joinSlash:
  "segs \<noteq> [] \<Longrightarrow> \<forall>s \<in> set segs. CHR ''/'' \<notin> set s \<Longrightarrow> splitSlash (joinSlash segs) = segs"
proof (induction segs rule: joinSlash.induct)
  case 1
  then show ?case by simp
next
  case (2 s)
  then show ?case by (simp add: splitSlash_id)
next
  case (3 s t ss)
  then show ?case by (simp add: splitSlash_append splitSlash_id)
qed

lemma joinSlash_snoc:
  "segs \<noteq> [] \<Longrightarrow> joinSlash (segs @ [s]) = joinSlash segs @ CHR ''/'' # s"
  by (induction segs rule: joinSlash.induct) auto

lemma joinSlash_append_prefix: "prefix (joinSlash xs) (joinSlash (xs @ ys))"
proof (induction ys rule: rev_induct)
  case Nil
  then show ?case by simp
next
  case (snoc y ys)
  show ?case
  proof (cases "xs @ ys = []")
    case True
    then show ?thesis by simp
  next
    case False
    then have "joinSlash (xs @ ys @ [y]) = joinSlash (xs @ ys) @ CHR ''/'' # y"
      using joinSlash_snoc [of "xs @ ys" y] by simp
    with snoc show ?thesis
      by (simp add: prefix_def) (metis append.assoc)
  qed
qed

lemma normalizeSegs_clean:
  "list_all cleanSeg res \<Longrightarrow> \<forall>s \<in> set ss. CHR ''/'' \<notin> set s \<Longrightarrow>
   list_all cleanSeg (normalizeSegs a res ss)"
proof (induction ss arbitrary: res)
  case Nil
  then show ?case by simp
next
  case (Cons s ss)
  have bl: "list_all cleanSeg (butlast res)"
    using Cons.prems(1) by (auto simp: list_all_iff dest: in_set_butlastD)
  have "cleanSeg ''..''"
    by (simp add: cleanSeg_def)
  then have dd: "list_all cleanSeg (res @ [''..''])"
    using Cons.prems(1) by simp
  have "s \<noteq> [] \<Longrightarrow> cleanSeg s"
    using Cons.prems(2) by (simp add: cleanSeg_def)
  then have sn: "s \<noteq> [] \<Longrightarrow> list_all cleanSeg (res @ [s])"
    using Cons.prems(1) by simp
  from Cons.prems(2) have rest: "\<forall>s \<in> set ss. CHR ''/'' \<notin> set s" by simp
  show ?case
    using Cons.IH [OF Cons.prems(1) rest] Cons.IH [OF bl rest] Cons.IH [OF dd rest]
      Cons.IH [OF sn rest]
    by auto
qed

lemma normalizeSegs_splitSlash_clean:
  "list_all cleanSeg (normalizeSegs a [] (splitSlash s))"
  by (rule normalizeSegs_clean) (simp_all add: splitSlash_no_slash)

lemma pathSegments_root_joinSlash:
  assumes "list_all cleanSeg segs"
  shows "pathSegments (CHR ''/'' # joinSlash segs) = segs"
proof (cases "segs = []")
  case True
  then show ?thesis by (simp add: pathSegments_def)
next
  case False
  from assms have ns: "\<forall>s \<in> set segs. CHR ''/'' \<notin> set s" and ne: "\<forall>s \<in> set segs. s \<noteq> []"
    by (auto simp: list_all_iff cleanSeg_def)
  have "splitSlash (joinSlash segs) = segs"
    using False ns by (rule splitSlash_joinSlash)
  then have "pathSegments (CHR ''/'' # joinSlash segs) = filter (\<lambda>s. s \<noteq> []) segs"
    by (simp add: pathSegments_def)
  also have "\<dots> = segs"
    using ne by (simp add: filter_id_conv)
  finally show ?thesis .
qed

section \<open>Properties of \<open>safePath\<close>\<close>

lemma normalizeSegs_append:
  "normalizeSegs a res (xs @ ys) = normalizeSegs a (normalizeSegs a res xs) ys"
  by (induction xs arbitrary: res) auto

lemma resolveLoop_absolute_root:
  assumes "isAbsolute rootDir"
  shows "\<exists>p. resolveLoop (rev [rootDir, n] @ [c]) [] = (p, True)"
  using assms by (cases "n = []") (auto simp: isAbsolute_def)

lemma resolvedPath_shape:
  assumes "isAbsolute (STORAGE_DIR h)"
  shows "\<exists>segs. list_all cleanSeg segs \<and> resolvedPath h paths = CHR ''/'' # joinSlash segs"
proof -
  obtain p where "resolveLoop (rev [STORAGE_DIR h, posix_normalize (posix_join paths)] @ [cwd h]) []
      = (p, True)"
    using resolveLoop_absolute_root [OF assms] by blast
  then have "resolvedPath h paths = CHR ''/'' # joinSlash (normalizeSegs False [] (splitSlash p))"
    by (simp add: resolvedPath_def posix_resolve_def normalizeString_def)
  then show ?thesis
    using normalizeSegs_splitSlash_clean by blast
qed

lemma canonicalPath_shape:
  assumes "canonicalPath rootDir"
  shows "\<exists>segs. list_all cleanSeg segs \<and> rootDir = CHR ''/'' # joinSlash segs"
proof -
  from assms have "rootDir = CHR ''/'' # joinSlash (normalizeSegs False [] (splitSlash rootDir))"
    by (simp add: canonicalPath_def normalizeString_def)
  then show ?thesis
    using normalizeSegs_splitSlash_clean by blast
qed

lemma insideRoot_prefix:
  assumes "canonicalPath (STORAGE_DIR h)"
    and "insideRoot (STORAGE_DIR h) (resolvedPath h paths)"
  shows "prefix (STORAGE_DIR h) (resolvedPath h paths)"
proof -
  from canonicalPath_shape [OF assms(1)]
  obtain rs where rs: "list_all cleanSeg rs" "STORAGE_DIR h = CHR ''/'' # joinSlash rs"
    by blast
  from assms(1) have "isAbsolute (STORAGE_DIR h)"
    by (simp add: canonicalPath_def)
  from resolvedPath_shape [OF this]
  obtain segs where segs: "list_all cleanSeg segs"
    "resolvedPath h paths = CHR ''/'' # joinSlash segs"
    by blast
  from assms(2) have "prefix rs segs"
    by (simp add: insideRoot_def rs segs pathSegments_root_joinSlash)
  then obtain ts where "segs = rs @ ts"
    by (auto simp: prefix_def)
  then have "prefix (joinSlash rs) (joinSlash segs)"
    by (simp add: joinSlash_append_prefix)
  then show ?thesis
    by (simp add: rs(2) segs(2))
qed

lemma resolvedPath_empty:
  assumes "canonicalPath (STORAGE_DIR h)"
  shows "resolvedPath h [''''] = STORAGE_DIR h"
proof -
  let ?rootDir = "STORAGE_DIR h"
  from assms have abs: "?rootDir \<noteq> []" "hd ?rootDir = CHR ''/''"
    and fixed: "CHR ''/'' # normalizeString ?rootDir False = ?rootDir"
    by (simp_all add: canonicalPath_def isAbsolute_def)
  have n: "posix_normalize (posix_join ['''']) = ''.''"
    by (simp add: posix_join_def posix_normalize_def normalizeString_def isAbsolute_def)
  have "splitSlash (?rootDir @ ''/./'') = splitSlash ?rootDir @ [''.'', []]"
    using splitSlash_append [of ?rootDir "''./''"] by simp
  then have "normalizeString (?rootDir @ ''/./'') False = normalizeString ?rootDir False"
    by (simp add: normalizeString_def normalizeSegs_append)
  then have "posix_resolve (cwd h) [?rootDir, ''.''] = CHR ''/'' # normalizeString ?rootDir False"
    using abs by (simp add: posix_resolve_def)
  then show ?thesis
    by (simp add: resolvedPath_def n fixed)
qed

text \<open>
  Claim C2. The empty request path denotes the storage root, and \<open>GET /\<close> takes it as
  the default. The resolver compares the resolved path with \<open>STORAGE_DIR\<close> as strings,
  and \<open>STORAGE_DIR\<close> is used as it was configured. With the absolute root
  \<open>/srv/storage/\<close> the empty path resolves to \<open>/srv/storage\<close>, the root directory
  itself, of which the string \<open>/srv/storage/\<close> is not a prefix: the root is rejected
  with the traversal error, and the listing of the root answers 500.
\<close>

theorem safePath_rejects_root_with_trailing_slash:
  "isAbsolute (STORAGE_DIR trailingSlashHost) \<and>
   resolvedPath trailingSlashHost [''''] = ''/srv/storage'' \<and>
   insideRoot (STORAGE_DIR trailingSlashHost) (resolvedPath trailingSlashHost ['''']) \<and>
   safePath trailingSlashHost [''''] = Inl traversalError \<and>
   list_route trailingSlashHost None demoWorld =
     (Send 500 ''Error reading directory'', demoWorld)"
proof -
  have rejected: "safePath trailingSlashHost [''''] = Inl traversalError"
    by (simp add: safePath_def resolvedPath_def trailingSlashHost_def demoHost_def
                  posix_resolve_def posix_normalize_def posix_join_def normalizeString_def
                  isAbsolute_def)
  have "list_try trailingSlashHost None demoWorld = (Inl traversalError, demoWorld)"
    by (simp add: list_try_def orEmpty_def rejected bindIO_def liftE_def)
  then have "list_route trailingSlashHost None demoWorld =
      (Send 500 ''Error reading directory'', demoWorld)"
    by (simp add: list_route_def respond_def catchIO_def list_catch_def ret_def)
  moreover have "isAbsolute (STORAGE_DIR trailingSlashHost)"
    by (simp add: trailingSlashHost_def demoHost_def isAbsolute_def)
  moreover have "resolvedPath trailingSlashHost [''''] = ''/srv/storage''"
    by (simp add: resolvedPath_def trailingSlashHost_def demoHost_def
                  posix_resolve_def posix_normalize_def posix_join_def normalizeString_def
                  isAbsolute_def)
  moreover have
    "insideRoot (STORAGE_DIR trailingSlashHost) (resolvedPath trailingSlashHost [''''])"
    by (simp add: resolvedPath_def trailingSlashHost_def demoHost_def
                  posix_resolve_def posix_normalize_def posix_join_def normalizeString_def
                  isAbsolute_def insideRoot_def pathSegments_def)
  ultimately show ?thesis
    using rejected by (intro conjI)
qed

text \<open>
  For a storage root in normal form the resolver does accept what lies inside the
  root: every list of path arguments whose joined, normalized and resolved path lies
  inside the root (segment by segment) is accepted, \<open>safePath\<close> returns that resolved
  path, which is absolute, and the root is a prefix of it. The empty string resolves
  to the root itself.
\<close>

theorem safePath_accepts_inside:
  assumes "canonicalPath (STORAGE_DIR h)"
  shows "(insideRoot (STORAGE_DIR h) (resolvedPath h paths) \<longrightarrow>
           safePath h paths = Inr (resolvedPath h paths) \<and>
           prefix (STORAGE_DIR h) (resolvedPath h paths) \<and>
           isAbsolute (resolvedPath h paths)) \<and>
         safePath h [''''] = Inr (STORAGE_DIR h) \<and>
         insideRoot (STORAGE_DIR h) (resolvedPath h [''''])"
proof (intro conjI impI)
  assume inside: "insideRoot (STORAGE_DIR h) (resolvedPath h paths)"
  from insideRoot_prefix [OF assms inside]
  show "prefix (STORAGE_DIR h) (resolvedPath h paths)" .
  then show "safePath h paths = Inr (resolvedPath h paths)"
    by (simp add: safePath_def)
  from assms have "isAbsolute (STORAGE_DIR h)"
    by (simp add: canonicalPath_def)
  from resolvedPath_shape [OF this, of paths]
  show "isAbsolute (resolvedPath h paths)"
    by (auto simp: isAbsolute_def)
next
  show "safePath h [''''] = Inr (STORAGE_DIR h)"
    by (simp add: safePath_def resolvedPath_empty [OF assms])
  show "insideRoot (STORAGE_DIR h) (resolvedPath h [''''])"
    by (simp add: resolvedPath_empty [OF assms] insideRoot_def)
qed

lemma canonicalPath_demo: "canonicalPath (STORAGE_DIR demoHost)"
  by (simp add: canonicalPath_def demoHost_def isAbsolute_def normalizeString_def)

lemma resolvedPath_demo_docs: "resolvedPath demoHost [''docs/../docs/a.txt''] = ''/srv/storage/docs/a.txt''"
  by (simp add: resolvedPath_def demoHost_def posix_resolve_def posix_normalize_def
                posix_join_def normalizeString_def isAbsolute_def)

theorem safePath_accepts_inside_witness:
  "canonicalPath (STORAGE_DIR demoHost) \<and>
   insideRoot (STORAGE_DIR demoHost) (resolvedPath demoHost [''docs/../docs/a.txt'']) \<and>
   safePath demoHost [''docs/../docs/a.txt''] = Inr ''/srv/storage/docs/a.txt'' \<and>
   safePath demoHost [''''] = Inr ''/srv/storage''"
proof -
  have inside: "insideRoot (STORAGE_DIR demoHost) (resolvedPath demoHost [''docs/../docs/a.txt''])"
    unfolding resolvedPath_demo_docs by (simp add: insideRoot_def pathSegments_def demoHost_def)
  note inst = safePath_accepts_inside [OF canonicalPath_demo, of "[''docs/../docs/a.txt'']"]
  from inst inside have "safePath demoHost [''docs/../docs/a.txt''] =
      Inr (resolvedPath demoHost [''docs/../docs/a.txt''])"
    by (elim conjE) simp
  moreover from inst have "safePath demoHost [''''] = Inr (STORAGE_DIR demoHost)"
    by (elim conjE)
  ultimately show ?thesis
    using inside canonicalPath_demo unfolding resolvedPath_demo_docs
    by (simp add: demoHost_def)
qed

text \<open>
  Claim C1. The resolver compares strings: it accepts when \<open>STORAGE_DIR\<close> is a prefix of
  the resolved path, and the comparison does not stop at a segment boundary. With the
  root \<open>/srv/storage\<close>, the request path \<open>../storage2\<close> resolves to the sibling
  \<open>/srv/storage2\<close>, which is outside the root and is returned as a safe path.
\<close>

theorem safePath_accepts_sibling:
  "safePath demoHost [''../storage2''] = Inr ''/srv/storage2'' \<and>
   STORAGE_DIR demoHost = ''/srv/storage'' \<and>
   \<not> insideRoot (STORAGE_DIR demoHost) ''/srv/storage2''"
  by (simp add: safePath_def resolvedPath_def demoHost_def posix_resolve_def
                posix_normalize_def posix_join_def normalizeString_def isAbsolute_def
                insideRoot_def pathSegments_def)

section \<open>Running handler bodies\<close>

lemma bindIO_liftE_Inl [simp]: "bindIO (liftE (Inl e)) f w = (Inl e, w)"
  by (simp add: bindIO_def liftE_def)

lemma bindIO_liftE_Inr [simp]: "bindIO (liftE (Inr x)) f w = f x w"
  by (simp add: bindIO_def liftE_def)

lemma bindIO_ret [simp]: "bindIO (ret x) f w = f x w"
  by (simp add: bindIO_def ret_def)

lemma ret_apply [simp]: "ret x w = (Inr x, w)"
  by (simp add: ret_def)

lemma bindIO_Inl: "m w = (Inl e, w') \<Longrightarrow> bindIO m f w = (Inl e, w')"
  by (simp add: bindIO_def)

lemma bindIO_Inr: "m w = (Inr x, w') \<Longrightarrow> bindIO m f w = f x w'"
  by (simp add: bindIO_def)

lemma catchIO_Inl: "m w = (Inl e, w') \<Longrightarrow> catchIO m handler w = handler e w'"
  by (simp add: catchIO_def)

lemma catchIO_Inr: "m w = (Inr x, w') \<Longrightarrow> catchIO m handler w = (Inr x, w')"
  by (simp add: catchIO_def)

lemma respond_catch_Inl:
  "m w = (Inl e, w') \<Longrightarrow> handler e w' = (Inr r, w'') \<Longrightarrow> respond (catchIO m handler) w = (r, w'')"
  by (simp add: respond_def catchIO_def)

lemma respond_catch_Inr: "m w = (Inr r, w') \<Longrightarrow> respond (catchIO m handler) w = (r, w')"
  by (simp add: respond_def catchIO_def)

lemma includes_traversal [simp]: "includesStr (message traversalError) ''Path traversal''"
  by (simp add: includesStr_def traversalError_def)

lemma safePath_Inl: "safePath h paths = Inl e \<Longrightarrow> e = traversalError"
  by (simp add: safePath_def split: if_splits)

lemma safePathJS_Some [simp]: "safePathJS h [Some p] = safePath h [p]"
  by (simp add: safePathJS_def)

lemma safePathJS_Some2 [simp]: "safePathJS h [Some p, Some q] = safePath h [p, q]"
  by (simp add: safePathJS_def)

lemma fs_stat_files [simp]: "files (snd (fs_stat p w)) = files w"
  by (simp add: fs_stat_def logCall_def split: option.splits)

lemma fs_stat_calls [simp]: "calls (snd (fs_stat p w)) = calls w @ [Stat p]"
  by (simp add: fs_stat_def logCall_def split: option.splits)

lemma fs_stat_Some:
  "map_of (files w) p = Some n \<Longrightarrow> fs_stat p w = (Inr n, logCall (Stat p) w)"
  by (simp add: fs_stat_def)

lemma fs_stat_None:
  "map_of (files w) p = None \<Longrightarrow>
   fs_stat p w = (Inl (SystemError ENOENT ''stat'' p None), logCall (Stat p) w)"
  by (simp add: fs_stat_def)

lemma files_logCall [simp]: "files (logCall c w) = files w"
  by (simp add: logCall_def)

lemma calls_logCall [simp]: "calls (logCall c w) = calls w @ [c]"
  by (simp add: logCall_def)

section \<open>Normalizing twice, and resolving a child\<close>

lemma normalizeSegs_snoc:
  "normalizeSegs b res (xs @ [x]) = normalizeSegs b (normalizeSegs b res xs) [x]"
  by (rule normalizeSegs_append)

lemma normalizeSegs_snoc_empty [simp]: "normalizeSegs b res (xs @ [[]]) = normalizeSegs b res xs"
  by (simp add: normalizeSegs_append)

lemma normalizeSegs_snoc_plain:
  "plainSeg x \<Longrightarrow> normalizeSegs b res (xs @ [x]) = normalizeSegs b res xs @ [x]"
  by (simp add: normalizeSegs_append plainSeg_def)

lemma normalizeSegs_plain:
  "list_all plainSeg ps \<Longrightarrow> normalizeSegs b res ps = res @ ps"
  by (induction ps arbitrary: res) (auto simp: plainSeg_def)

lemma normalizeSegs_no_dot:
  "list_all (\<lambda>s. s \<noteq> [] \<and> s \<noteq> ''.'') res \<Longrightarrow>
   list_all (\<lambda>s. s \<noteq> [] \<and> s \<noteq> ''.'') (normalizeSegs b res xs)"
proof (induction xs arbitrary: res)
  case Nil
  then show ?case by simp
next
  case (Cons x xs)
  have bl: "list_all (\<lambda>s. s \<noteq> [] \<and> s \<noteq> ''.'') (butlast res)"
    using Cons.prems by (auto simp: list_all_iff dest: in_set_butlastD)
  have dd: "list_all (\<lambda>s. s \<noteq> [] \<and> s \<noteq> ''.'') (res @ [''..''])"
    using Cons.prems by simp
  have sn: "x \<noteq> [] \<Longrightarrow> x \<noteq> ''.'' \<Longrightarrow> list_all (\<lambda>s. s \<noteq> [] \<and> s \<noteq> ''.'') (res @ [x])"
    using Cons.prems by simp
  show ?case
    using Cons.IH [OF Cons.prems] Cons.IH [OF bl] Cons.IH [OF dd] Cons.IH [OF sn]
    by auto
qed

lemma normalizeSegs_False_plain:
  "list_all plainSeg res \<Longrightarrow> list_all plainSeg (normalizeSegs False res xs)"
proof (induction xs arbitrary: res)
  case Nil
  then show ?case by simp
next
  case (Cons x xs)
  have bl: "list_all plainSeg (butlast res)"
    using Cons.prems by (auto simp: list_all_iff dest: in_set_butlastD)
  have sn: "plainSeg x \<Longrightarrow> list_all plainSeg (res @ [x])"
    using Cons.prems by simp
  show ?case
    using Cons.IH [OF Cons.prems] Cons.IH [OF bl] Cons.IH [OF sn]
    by (auto simp: plainSeg_def)
qed

text \<open>
  Normalizing a relative path first and resolving it below some directory afterwards
  gives what resolving it directly gives.
\<close>

lemma normalizeSegs_relative_first:
  "normalizeSegs False res (normalizeSegs True [] xs) = normalizeSegs False res xs"
proof (induction xs rule: rev_induct)
  case Nil
  then show ?case by simp
next
  case (snoc x xs)
  let ?A = "normalizeSegs True [] xs"
  have nodot: "list_all (\<lambda>s. s \<noteq> [] \<and> s \<noteq> ''.'') ?A"
    by (rule normalizeSegs_no_dot) simp
  have rhs: "normalizeSegs False res (xs @ [x]) =
             normalizeSegs False (normalizeSegs False res ?A) [x]"
    by (simp add: normalizeSegs_append snoc.IH)
  show ?case
  proof (cases "x = ''..'' \<and> ?A \<noteq> [] \<and> last ?A \<noteq> ''..''")
    case True
    then obtain B p where A: "?A = B @ [p]" and p: "p \<noteq> ''..''"
      by (metis append_butlast_last_id)
    from nodot A have "p \<noteq> []" "p \<noteq> ''.''" by simp_all
    with p have plain: "plainSeg p" by (simp add: plainSeg_def)
    have "normalizeSegs True [] (xs @ [x]) = B"
      using True A by (simp add: normalizeSegs_append)
    moreover have "normalizeSegs False (normalizeSegs False res ?A) [x] = normalizeSegs False res B"
      using True p by (simp add: A normalizeSegs_snoc_plain [OF plain])
    ultimately show ?thesis
      by (simp add: rhs)
  next
    case False
    then have "normalizeSegs True [] (xs @ [x]) =
        (if x = [] \<or> x = ''.'' then ?A else ?A @ [x])"
      by (auto simp: normalizeSegs_append)
    moreover have "normalizeSegs False res (?A @ [x]) =
        normalizeSegs False (normalizeSegs False res ?A) [x]"
      by (rule normalizeSegs_append)
    ultimately show ?thesis
      by (auto simp: rhs)
  qed
qed

lemma normalizeSegs_absolute_twice:
  "normalizeSegs False [] (normalizeSegs False [] xs) = normalizeSegs False [] xs"
proof -
  have "list_all plainSeg (normalizeSegs False [] xs)"
    by (rule normalizeSegs_False_plain) simp
  then show ?thesis
    by (simp add: normalizeSegs_plain)
qed

lemma splitSlash_snoc_slash: "splitSlash (s @ ''/'') = splitSlash s @ [[]]"
  using splitSlash_append [of s "[]"] by simp

lemma joinSlash_clean_not_Nil:
  "list_all cleanSeg segs \<Longrightarrow> segs \<noteq> [] \<Longrightarrow> joinSlash segs \<noteq> []"
  by (induction segs rule: joinSlash.induct) (auto simp: cleanSeg_def)

lemma joinSlash_clean_hd:
  "list_all cleanSeg segs \<Longrightarrow> segs \<noteq> [] \<Longrightarrow> hd (joinSlash segs) \<noteq> CHR ''/''"
  by (induction segs rule: joinSlash.induct) (auto simp: cleanSeg_def neq_Nil_conv)

lemma splitSlash_joinSlash_clean:
  "list_all cleanSeg segs \<Longrightarrow> segs \<noteq> [] \<Longrightarrow> splitSlash (joinSlash segs) = segs"
  by (rule splitSlash_joinSlash) (auto simp: list_all_iff cleanSeg_def)

lemma posix_normalize_cases:
  assumes "s \<noteq> []"
  defines "P \<equiv> normalizeSegs (\<not> isAbsolute s) [] (splitSlash s)"
  shows "posix_normalize s =
           (if P = [] then (if isAbsolute s then ''/'' else if last s = CHR ''/'' then ''./'' else ''.'')
            else (if isAbsolute s then ''/'' else []) @ joinSlash P @
                 (if last s = CHR ''/'' then ''/'' else []))"
proof -
  have "list_all cleanSeg P"
    unfolding P_def by (rule normalizeSegs_splitSlash_clean)
  then have "P \<noteq> [] \<Longrightarrow> joinSlash P \<noteq> []"
    by (rule joinSlash_clean_not_Nil)
  then show ?thesis
    using assms(1) by (auto simp: posix_normalize_def normalizeString_def Let_def P_def)
qed

lemma posix_normalize_not_Nil [simp]: "posix_normalize s \<noteq> []"
proof (cases "s = []")
  case True
  then show ?thesis by (simp add: posix_normalize_def)
next
  case False
  let ?P = "normalizeSegs (\<not> isAbsolute s) [] (splitSlash s)"
  have "list_all cleanSeg ?P"
    by (rule normalizeSegs_splitSlash_clean)
  then have "?P \<noteq> [] \<Longrightarrow> joinSlash ?P \<noteq> []"
    by (rule joinSlash_clean_not_Nil)
  then show ?thesis
    unfolding posix_normalize_cases [OF False] by auto
qed

lemma normalizeSegs_splitSlash_joined:
  assumes "list_all cleanSeg P"
  shows "normalizeSegs b res
           (splitSlash ((if a then ''/'' else []) @ joinSlash P @ (if t then ''/'' else []))) =
         normalizeSegs b res P"
proof (cases "P = []")
  case True
  then show ?thesis by simp
next
  case False
  have "splitSlash (joinSlash P) = P"
    by (rule splitSlash_joinSlash_clean [OF assms False])
  then show ?thesis
    by (simp add: splitSlash_snoc_slash)
qed

lemma isAbsolute_posix_normalize [simp]: "isAbsolute (posix_normalize s) = isAbsolute s"
proof (cases "s = []")
  case True
  then show ?thesis by (simp add: posix_normalize_def isAbsolute_def)
next
  case False
  let ?P = "normalizeSegs (\<not> isAbsolute s) [] (splitSlash s)"
  have clean: "list_all cleanSeg ?P"
    by (rule normalizeSegs_splitSlash_clean)
  show ?thesis
  proof (cases "isAbsolute s")
    case True
    then show ?thesis
      by (simp add: posix_normalize_cases [OF False]) (simp add: isAbsolute_def)
  next
    case rel: False
    show ?thesis
    proof (cases "?P = []")
      case True
      with rel show ?thesis
        by (simp add: posix_normalize_cases [OF False]) (simp add: isAbsolute_def)
    next
      case ne: False
      from joinSlash_clean_hd [OF clean ne] joinSlash_clean_not_Nil [OF clean ne]
      have "\<not> isAbsolute (joinSlash ?P @ t)" for t
        by (simp add: isAbsolute_def)
      with rel ne show ?thesis
        by (simp add: posix_normalize_cases [OF False])
    qed
  qed
qed

text \<open>
  Resolving a normalized path gives what resolving the path itself gives: below any
  directory for a relative path, and from the root directory for an absolute one.
\<close>

lemma normalizeSegs_posix_normalize:
  assumes "isAbsolute s \<longrightarrow> res = []"
  shows "normalizeSegs False res (splitSlash (posix_normalize s)) =
         normalizeSegs False res (splitSlash s)"
proof (cases "s = []")
  case True
  then show ?thesis by (simp add: posix_normalize_def)
next
  case False
  let ?P = "normalizeSegs (\<not> isAbsolute s) [] (splitSlash s)"
  have clean: "list_all cleanSeg ?P"
    by (rule normalizeSegs_splitSlash_clean)
  have key: "normalizeSegs False res ?P = normalizeSegs False res (splitSlash s)"
    using assms by (cases "isAbsolute s")
      (simp_all add: normalizeSegs_absolute_twice normalizeSegs_relative_first)
  show ?thesis
  proof (cases "?P = []")
    case True
    with key have "normalizeSegs False res (splitSlash s) = res" by simp
    with True show ?thesis
      by (simp add: posix_normalize_cases [OF False])
  next
    case ne: False
    have "posix_normalize s =
        (if isAbsolute s then ''/'' else []) @ joinSlash ?P @
        (if last s = CHR ''/'' then ''/'' else [])"
      by (simp only: posix_normalize_cases [OF False] ne if_False)
    then have "normalizeSegs False res (splitSlash (posix_normalize s)) = normalizeSegs False res ?P"
      by (simp only: normalizeSegs_splitSlash_joined [OF clean])
    with key show ?thesis by simp
  qed
qed

lemma posix_resolve_root:
  assumes "isAbsolute (STORAGE_DIR h)" and "s \<noteq> []"
  shows "posix_resolve (cwd h) [STORAGE_DIR h, s] = CHR ''/'' # joinSlash (belowSegs h s)"
proof (cases "isAbsolute s")
  case True
  with assms(2) have "resolveLoop (rev [STORAGE_DIR h, s] @ [cwd h]) [] = (s @ ''/'', True)"
    by (simp add: isAbsolute_def)
  with True show ?thesis
    by (simp add: posix_resolve_def normalizeString_def belowSegs_def splitSlash_snoc_slash)
next
  case False
  with assms have "resolveLoop (rev [STORAGE_DIR h, s] @ [cwd h]) [] =
      (STORAGE_DIR h @ CHR ''/'' # s @ ''/'', True)"
    by (simp add: isAbsolute_def)
  moreover have "splitSlash (STORAGE_DIR h @ CHR ''/'' # s @ ''/'') =
      splitSlash (STORAGE_DIR h) @ splitSlash s @ [[]]"
    by (simp add: splitSlash_append splitSlash_snoc_slash)
  ultimately show ?thesis
    using False
    by (simp add: posix_resolve_def normalizeString_def belowSegs_def rootSegs_def
                  normalizeSegs_append)
qed

lemma resolvedPath_belowSegs:
  assumes "isAbsolute (STORAGE_DIR h)"
  shows "resolvedPath h paths = CHR ''/'' # joinSlash (belowSegs h (posix_join paths))"
proof -
  let ?j = "posix_join paths"
  have "resolvedPath h paths = CHR ''/'' # joinSlash (belowSegs h (posix_normalize ?j))"
    unfolding resolvedPath_def by (rule posix_resolve_root [OF assms]) simp
  also have "belowSegs h (posix_normalize ?j) = belowSegs h ?j"
    unfolding belowSegs_def isAbsolute_posix_normalize
    by (rule normalizeSegs_posix_normalize) simp
  finally show ?thesis .
qed

lemma belowSegs_posix_normalize [simp]: "belowSegs h (posix_normalize s) = belowSegs h s"
  unfolding belowSegs_def isAbsolute_posix_normalize
  by (rule normalizeSegs_posix_normalize) simp

lemma rootSegs_clean: "list_all cleanSeg (rootSegs h)"
  unfolding rootSegs_def by (rule normalizeSegs_splitSlash_clean)

lemma belowSegs_clean: "list_all cleanSeg (belowSegs h s)"
  unfolding belowSegs_def
  by (rule normalizeSegs_clean) (simp_all add: rootSegs_clean splitSlash_no_slash)

lemma cleanSeg_not_absolute: "cleanSeg x \<Longrightarrow> \<not> isAbsolute (x @ t)"
  by (cases x) (auto simp: cleanSeg_def isAbsolute_def)

lemma belowSegs_join_child:
  assumes "cleanSeg x" and "plainSeg x"
  shows "belowSegs h (posix_join [p, x]) = belowSegs h (posix_join [p]) @ [x]"
proof (cases "p = []")
  case True
  from assms(1) have x: "x \<noteq> []" "splitSlash x = [x]" "\<not> isAbsolute x"
    using cleanSeg_not_absolute [of x "[]"] by (simp_all add: cleanSeg_def splitSlash_id)
  have "belowSegs h (posix_join [p, x]) = belowSegs h x"
    using True x(1) by (simp add: posix_join_def)
  also have "\<dots> = rootSegs h @ [x]"
    using x assms(2) by (simp add: belowSegs_def plainSeg_def)
  also have "rootSegs h = belowSegs h (posix_join [p])"
    using True by (simp add: posix_join_def belowSegs_def isAbsolute_def)
  finally show ?thesis .
next
  case False
  from assms(1) have x: "x \<noteq> []" "splitSlash x = [x]"
    by (simp_all add: cleanSeg_def splitSlash_id)
  have abs: "isAbsolute (p @ CHR ''/'' # x) = isAbsolute p"
    using False by (simp add: isAbsolute_def)
  have "belowSegs h (posix_join [p, x]) = belowSegs h (p @ CHR ''/'' # x)"
    using False x(1) by (simp add: posix_join_def)
  also have "\<dots> = belowSegs h p @ [x]"
    unfolding belowSegs_def abs splitSlash_append x(2)
    by (rule normalizeSegs_snoc_plain [OF assms(2)])
  also have "belowSegs h p = belowSegs h (posix_join [p])"
    using False by (simp add: posix_join_def)
  finally show ?thesis .
qed

lemma root_joinSlash_snoc:
  assumes "list_all cleanSeg segs"
  shows "CHR ''/'' # joinSlash (segs @ [x]) = dirPrefix (CHR ''/'' # joinSlash segs) @ x"
proof (cases "segs = []")
  case True
  then show ?thesis by (simp add: dirPrefix_def)
next
  case False
  with assms have "joinSlash segs \<noteq> []"
    by (simp add: joinSlash_clean_not_Nil)
  with False show ?thesis
    by (simp add: dirPrefix_def joinSlash_snoc)
qed

text \<open>
  A clean, plain name resolved below a parent is the child of that name of the resolved
  parent.
\<close>

lemma resolvedPath_child:
  assumes "isAbsolute (STORAGE_DIR h)" and "cleanSeg x" and "plainSeg x"
  shows "resolvedPath h [p, x] = dirPrefix (resolvedPath h [p]) @ x"
  unfolding resolvedPath_belowSegs [OF assms(1)] belowSegs_join_child [OF assms(2,3)]
  by (rule root_joinSlash_snoc [OF belowSegs_clean])

lemma prefix_dirPrefix: "prefix p (dirPrefix p @ x)"
  by (simp add: dirPrefix_def)

lemma safePath_child:
  assumes "isAbsolute (STORAGE_DIR h)" and "cleanSeg x" and "plainSeg x"
    and "safePath h [p] = Inr pp"
  shows "safePath h [p, x] = Inr (dirPrefix pp @ x)"
proof -
  from assms(4) have pp: "resolvedPath h [p] = pp" and pre: "prefix (STORAGE_DIR h) pp"
    by (auto simp: safePath_def split: if_splits)
  have "resolvedPath h [p, x] = dirPrefix pp @ x"
    using resolvedPath_child [OF assms(1-3), of p] by (simp add: pp)
  moreover have "prefix (STORAGE_DIR h) (dirPrefix pp @ x)"
    using pre prefix_dirPrefix [of pp x] by (rule prefix_order.trans)
  ultimately show ?thesis
    by (simp add: safePath_def)
qed

lemma canonicalPath_segs:
  assumes "canonicalPath q"
  shows "q = CHR ''/'' # joinSlash (pathSegments q)"
    and "list_all cleanSeg (pathSegments q)" and "list_all plainSeg (pathSegments q)"
    and "normalizeSegs False [] (splitSlash q) = pathSegments q"
proof -
  let ?Q = "normalizeSegs False [] (splitSlash q)"
  from assms have q: "q = CHR ''/'' # joinSlash ?Q"
    by (simp add: canonicalPath_def normalizeString_def)
  have clean: "list_all cleanSeg ?Q"
    by (rule normalizeSegs_splitSlash_clean)
  have plain: "list_all plainSeg ?Q"
    by (rule normalizeSegs_False_plain) simp
  have "pathSegments (CHR ''/'' # joinSlash ?Q) = ?Q"
    by (rule pathSegments_root_joinSlash [OF clean])
  with q have seg: "pathSegments q = ?Q" by simp
  from q seg show "q = CHR ''/'' # joinSlash (pathSegments q)" by simp
  from clean seg show "list_all cleanSeg (pathSegments q)" by simp
  from plain seg show "list_all plainSeg (pathSegments q)" by simp
  from seg show "?Q = pathSegments q" by simp
qed

lemma posix_join_child:
  assumes "canonicalPath cur" and "cleanSeg x" and "plainSeg x"
  shows "posix_join [cur, x] = dirPrefix cur @ x"
proof -
  let ?s = "cur @ CHR ''/'' # x"
  from assms(1) have cur: "cur \<noteq> []" "isAbsolute cur"
    by (auto simp: canonicalPath_def isAbsolute_def)
  from assms(2) have x12: "x \<noteq> []" "splitSlash x = [x]" and ns: "CHR ''/'' \<notin> set x"
    by (auto simp: cleanSeg_def splitSlash_id)
  from x12(1) have "last x \<in> set x" by (rule last_in_set)
  with ns have "last x \<noteq> CHR ''/''" by auto
  note x = x12 this
  have abs: "isAbsolute ?s"
    using cur by (simp add: isAbsolute_def)
  have P: "normalizeSegs False [] (splitSlash ?s) = pathSegments cur @ [x]"
    unfolding splitSlash_append x(2)
    by (simp add: normalizeSegs_snoc_plain [OF assms(3)] canonicalPath_segs(4) [OF assms(1)])
  have "posix_join [cur, x] = posix_normalize ?s"
    using cur(1) x(1) by (simp add: posix_join_def)
  also have "\<dots> = CHR ''/'' # joinSlash (pathSegments cur @ [x])"
    using abs x(1,3) by (simp add: posix_normalize_cases P)
  also have "\<dots> = dirPrefix (CHR ''/'' # joinSlash (pathSegments cur)) @ x"
    by (rule root_joinSlash_snoc [OF canonicalPath_segs(2) [OF assms(1)]])
  also have "CHR ''/'' # joinSlash (pathSegments cur) = cur"
    using canonicalPath_segs(1) [OF assms(1)] by simp
  finally show ?thesis .
qed

lemma childName_Some:
  "childName p q = Some n \<longleftrightarrow> q = dirPrefix p @ n \<and> n \<noteq> [] \<and> CHR ''/'' \<notin> set n"
  by (auto simp: childName_def Let_def prefix_def)

lemma dirPrefix_split: "\<exists>c. dirPrefix p = c @ ''/''"
  by (simp add: dirPrefix_def)

lemma child_of_canonical:
  assumes "canonicalPath q" and "childName p q = Some n"
  shows "cleanSeg n" and "plainSeg n"
proof -
  from assms(2) have q: "q = dirPrefix p @ n" and n: "n \<noteq> []" "CHR ''/'' \<notin> set n"
    by (simp_all add: childName_Some)
  from n show "cleanSeg n" by (simp add: cleanSeg_def)
  obtain c where "dirPrefix p = c @ ''/''"
    using dirPrefix_split by blast
  with q have "splitSlash q = splitSlash c @ [n]"
    using n(2) by (simp add: splitSlash_append splitSlash_id)
  with n(1) have "n \<in> set (pathSegments q)"
    by (simp add: pathSegments_def)
  with canonicalPath_segs(3) [OF assms(1)] show "plainSeg n"
    by (simp add: list_all_iff)
qed

lemma belowSegs_plain: "list_all plainSeg (belowSegs h s)"
  unfolding belowSegs_def rootSegs_def
  by (rule normalizeSegs_False_plain) (simp add: normalizeSegs_False_plain)

lemma canonicalPath_root_joinSlash:
  assumes "list_all cleanSeg segs" and "list_all plainSeg segs"
  shows "canonicalPath (CHR ''/'' # joinSlash segs)"
proof -
  have "splitSlash (CHR ''/'' # joinSlash segs) = [] # splitSlash (joinSlash segs)"
    by simp
  moreover have "normalizeSegs False [] (splitSlash (joinSlash segs)) = segs"
  proof (cases "segs = []")
    case True
    then show ?thesis by simp
  next
    case False
    then show ?thesis
      by (simp add: splitSlash_joinSlash_clean [OF assms(1)] normalizeSegs_plain [OF assms(2)])
  qed
  ultimately show ?thesis
    by (simp add: canonicalPath_def isAbsolute_def normalizeString_def)
qed

lemma resolvedPath_canonical:
  assumes "isAbsolute (STORAGE_DIR h)"
  shows "canonicalPath (resolvedPath h paths)"
  unfolding resolvedPath_belowSegs [OF assms]
  by (rule canonicalPath_root_joinSlash [OF belowSegs_clean belowSegs_plain])

lemma safePath_canonical:
  "isAbsolute (STORAGE_DIR h) \<Longrightarrow> safePath h paths = Inr p \<Longrightarrow> canonicalPath p"
  using resolvedPath_canonical [of h paths] by (auto simp: safePath_def split: if_splits)

lemma posix_join_not_Nil [simp]: "posix_join paths \<noteq> []"
  by (simp add: posix_join_def split: list.splits)

lemma resolvedPath_posix_join:
  assumes "isAbsolute (STORAGE_DIR h)"
  shows "resolvedPath h [posix_join paths] = resolvedPath h paths"
proof -
  have "posix_join [s] = posix_normalize s" if "s \<noteq> []" for s
    using that by (simp add: posix_join_def)
  then have "posix_join [posix_join paths] = posix_normalize (posix_join paths)"
    by simp
  then show ?thesis
    by (simp add: resolvedPath_belowSegs [OF assms])
qed

lemma safePath_posix_join:
  "isAbsolute (STORAGE_DIR h) \<Longrightarrow> safePath h [posix_join paths] = safePath h paths"
  by (simp add: safePath_def resolvedPath_posix_join)

lemma posix_basename_snoc:
  assumes "cleanSeg x"
  shows "posix_basename (pre @ CHR ''/'' # x) = x"
proof -
  from assms have ne: "x \<noteq> []" and ns: "CHR ''/'' \<notin> set x"
    by (simp_all add: cleanSeg_def)
  from ne have "hd (rev x) \<in> set x"
    by (simp add: hd_rev)
  with ns have hd: "hd (rev x) \<noteq> CHR ''/''" by auto
  have "dropWhile (\<lambda>c. c = CHR ''/'') (rev x @ CHR ''/'' # rev pre) = rev x @ CHR ''/'' # rev pre"
    using ne hd by (cases "rev x") simp_all
  moreover have "takeWhile (\<lambda>c. c \<noteq> CHR ''/'') (rev x @ CHR ''/'' # rev pre) = rev x"
  proof -
    have "\<And>c. c \<in> set (rev x) \<Longrightarrow> c \<noteq> CHR ''/''"
      using ns by auto
    then have "takeWhile (\<lambda>c. c \<noteq> CHR ''/'') (rev x @ CHR ''/'' # rev pre) =
               rev x @ takeWhile (\<lambda>c. c \<noteq> CHR ''/'') (CHR ''/'' # rev pre)"
      by (rule takeWhile_append2)
    then show ?thesis by simp
  qed
  ultimately show ?thesis
    by (simp add: posix_basename_def)
qed

lemma posix_basename_canonical:
  assumes "canonicalPath p" and "posix_basename p \<noteq> []"
  shows "cleanSeg (posix_basename p)" and "plainSeg (posix_basename p)"
proof -
  note segs = canonicalPath_segs [OF assms(1)]
  have ne: "pathSegments p \<noteq> []"
  proof
    assume "pathSegments p = []"
    with segs(1) have "p = ''/''" by simp
    with assms(2) show False by (simp add: posix_basename_def)
  qed
  then obtain B x where B: "pathSegments p = B @ [x]"
    by (metis append_butlast_last_id)
  with segs(2,3) have x: "cleanSeg x" "plainSeg x" and cb: "list_all cleanSeg B"
    by simp_all
  have "dirPrefix (CHR ''/'' # joinSlash B) @ x = CHR ''/'' # joinSlash (pathSegments p)"
    unfolding B by (rule root_joinSlash_snoc [OF cb, symmetric])
  with segs(1) have "p = dirPrefix (CHR ''/'' # joinSlash B) @ x" by simp
  moreover obtain c where "dirPrefix (CHR ''/'' # joinSlash B) = c @ ''/''"
    using dirPrefix_split by blast
  ultimately have "p = c @ CHR ''/'' # x" by simp
  then have "posix_basename p = x"
    using posix_basename_snoc [OF x(1)] by simp
  with x show "cleanSeg (posix_basename p)" "plainSeg (posix_basename p)" by simp_all
qed

lemma pathSegments_child:
  assumes "cleanSeg x"
  shows "pathSegments (dirPrefix p @ x) = pathSegments p @ [x]"
proof -
  from assms have x: "splitSlash x = [x]" "x \<noteq> []"
    by (simp_all add: cleanSeg_def splitSlash_id)
  show ?thesis
  proof (cases "p = ''/''")
    case True
    then show ?thesis
      using x by (simp add: dirPrefix_def pathSegments_def)
  next
    case False
    then have "dirPrefix p @ x = p @ CHR ''/'' # x"
      by (simp add: dirPrefix_def)
    then show ?thesis
      using x by (simp add: pathSegments_def splitSlash_append)
  qed
qed

lemma insideRoot_child:
  assumes "cleanSeg x" and "insideRoot r p"
  shows "insideRoot r (dirPrefix p @ x)"
  using assms(2) unfolding insideRoot_def pathSegments_child [OF assms(1)]
  by (rule prefix_order.trans) simp

section \<open>Resolution failures\<close>

lemma list_rejected:
  assumes "safePath h [orEmpty q] = Inl traversalError"
  shows "list_try h q w = (Inl traversalError, w)"
    and "list_route h q w = (Send 500 ''Error reading directory'', w)"
proof -
  show body: "list_try h q w = (Inl traversalError, w)"
    by (simp add: list_try_def assms)
  show "list_route h q w = (Send 500 ''Error reading directory'', w)"
    by (simp add: list_route_def respond_def catchIO_def body list_catch_def)
qed

lemma delete_rejected:
  assumes "safePath h [p] = Inl traversalError"
  shows "delete_try h (Some p) w = (Inl traversalError, w)"
    and "delete_route h (Some p) w = (Send 500 ''Error deleting item'', w)"
proof -
  show body: "delete_try h (Some p) w = (Inl traversalError, w)"
    by (simp add: delete_try_def assms)
  show "delete_route h (Some p) w = (Send 500 ''Error deleting item'', w)"
    by (simp add: delete_route_def respond_def catchIO_def body delete_catch_def)
qed

lemma create_folder_rejected:
  assumes "folderName \<noteq> []" and "sanitize folderName \<noteq> []"
    and "safePath h [orEmpty parent, sanitize folderName] = Inl traversalError"
  shows "create_folder_try h (Some folderName) parent w = (Inl traversalError, w)"
    and "create_folder_route h (Some folderName) parent w = (Send 403 ''Invalid folder location'', w)"
proof -
  show body: "create_folder_try h (Some folderName) parent w = (Inl traversalError, w)"
    using assms by (simp add: create_folder_try_def falsy_def sanitizeJS_def)
  show "create_folder_route h (Some folderName) parent w = (Send 403 ''Invalid folder location'', w)"
    by (simp add: create_folder_route_def respond_def catchIO_def body create_folder_catch_def)
qed

lemma rename_rejected:
  assumes "safePath h [oldPath] = Inl traversalError \<or>
           safePath h [posix_dirname oldPath, sanitize newName] = Inl traversalError"
  shows "rename_try h (Some oldPath) (Some newName) w = (Inl traversalError, w)"
    and "rename_route h (Some oldPath) (Some newName) w = (Send 500 ''Error renaming item'', w)"
proof -
  show body: "rename_try h (Some oldPath) (Some newName) w = (Inl traversalError, w)"
  proof (cases "safePath h [oldPath]")
    case (Inl e)
    then have "e = traversalError" by (rule safePath_Inl)
    with Inl show ?thesis
      by (simp add: rename_try_def sanitizeJS_def)
  next
    case (Inr oldFullPath)
    with assms have "safePath h [posix_dirname oldPath, sanitize newName] = Inl traversalError"
      by simp
    with Inr show ?thesis
      by (simp add: rename_try_def sanitizeJS_def orEmpty_def)
  qed
  show "rename_route h (Some oldPath) (Some newName) w = (Send 500 ''Error renaming item'', w)"
    by (simp add: rename_route_def respond_def catchIO_def body rename_catch_def)
qed

lemma download_rejected:
  assumes "safePath h [orEmpty q] = Inl traversalError"
  shows "download_try h q w = (Inl traversalError, w)"
    and "download_route h q w = (Send 500 ''Error downloading file'', w)"
proof -
  show body: "download_try h q w = (Inl traversalError, w)"
    by (simp add: download_try_def assms)
  show "download_route h q w = (Send 500 ''Error downloading file'', w)"
    by (simp add: download_route_def respond_def catchIO_def body download_catch_def)
qed

lemma preview_rejected:
  assumes "safePath h [p] = Inl traversalError"
  shows "preview_try h (Some p) w = (Inl traversalError, w)"
    and "preview_route h (Some p) w = (Send 500 ''Error generating preview'', w)"
proof -
  show body: "preview_try h (Some p) w = (Inl traversalError, w)"
    by (simp add: preview_try_def assms)
  show "preview_route h (Some p) w = (Send 500 ''Error generating preview'', w)"
    by (simp add: preview_route_def respond_def catchIO_def body preview_catch_def)
qed

lemma upload_rejected:
  assumes "formFields \<noteq> []" and "safePath h [orEmpty q] = Inl traversalError"
  shows "upload_try h (Some formFields) q w = (Inl traversalError, w)"
    and "upload_route h (Some formFields) q w = (Send 500 ''Error uploading files'', w)"
proof -
  show body: "upload_try h (Some formFields) q w = (Inl traversalError, w)"
    using assms by (simp add: upload_try_def)
  show "upload_route h (Some formFields) q w = (Send 500 ''Error uploading files'', w)"
    by (simp add: upload_route_def respond_def catchIO_def body upload_catch_def)
qed

lemma move_source_rejected:
  assumes "source \<noteq> []" and "target \<noteq> []"
    and "safePath h [source] = Inl traversalError"
  shows "move_try h (Some source) (Some target) w = (Inl traversalError, w)"
    and "move_route h (Some source) (Some target) w = (Send 403 ''Invalid path'', w)"
proof -
  show body: "move_try h (Some source) (Some target) w = (Inl traversalError, w)"
    using assms by (simp add: move_try_def falsy_def)
  show "move_route h (Some source) (Some target) w = (Send 403 ''Invalid path'', w)"
    by (simp add: move_route_def respond_def catchIO_def body move_catch_def)
qed

text \<open>
  When only the target of a move fails to resolve, the source has been resolved and
  stat'ed before: that one call is in the log, whatever it returned.
\<close>

lemma move_target_rejected_try:
  assumes "source \<noteq> []" and "target \<noteq> []"
    and "safePath h [source] = Inr sp"
    and "safePath h [target, posix_basename sp] = Inl traversalError \<or>
         safePath h [target] = Inl traversalError"
  shows "move_try h (Some source) (Some target) w =
           (case map_of (files w) sp of
              None \<Rightarrow> (Inl (SystemError ENOENT ''stat'' sp None), logCall (Stat sp) w)
            | Some n \<Rightarrow> (Inl traversalError, logCall (Stat sp) w))"
proof (cases "map_of (files w) sp")
  case None
  have "bindIO (fs_stat sp) f w = (Inl (SystemError ENOENT ''stat'' sp None), logCall (Stat sp) w)"
    for f :: "node \<Rightarrow> response io"
    by (rule bindIO_Inl) (simp add: fs_stat_None [OF None])
  with None show ?thesis
    using assms(1-3) by (simp add: move_try_def falsy_def)
next
  case (Some n)
  have stat: "bindIO (fs_stat sp) f w = f n (logCall (Stat sp) w)" for f :: "node \<Rightarrow> response io"
    by (rule bindIO_Inr) (simp add: fs_stat_Some [OF Some])
  show ?thesis
  proof (cases "safePath h [target, posix_basename sp]")
    case (Inl e)
    then have "e = traversalError" by (rule safePath_Inl)
    with Inl Some show ?thesis
      using assms(1-3) by (simp add: move_try_def falsy_def stat)
  next
    case (Inr tp)
    with assms(4) have "safePath h [target] = Inl traversalError" by simp
    with Inr Some show ?thesis
      using assms(1-3) by (simp add: move_try_def falsy_def stat)
  qed
qed

lemma move_target_rejected:
  assumes "source \<noteq> []" and "target \<noteq> []"
    and "safePath h [source] = Inr sp"
    and "safePath h [target, posix_basename sp] = Inl traversalError \<or>
         safePath h [target] = Inl traversalError"
  shows "snd (move_route h (Some source) (Some target) w) = logCall (Stat sp) w"
    and "map_of (files w) sp \<noteq> None \<Longrightarrow>
         move_route h (Some source) (Some target) w = (Send 403 ''Invalid path'', logCall (Stat sp) w)"
proof -
  note body = move_target_rejected_try [OF assms, of w]
  show "snd (move_route h (Some source) (Some target) w) = logCall (Stat sp) w"
    using body
    by (cases "map_of (files w) sp")
       (simp_all add: move_route_def respond_def catchIO_def move_catch_def)
  show "move_route h (Some source) (Some target) w = (Send 403 ''Invalid path'', logCall (Stat sp) w)"
    if "map_of (files w) sp \<noteq> None"
    using body that
    by (cases "map_of (files w) sp")
       (simp_all add: move_route_def respond_def catchIO_def move_catch_def)
qed

lemma safePath_demo_a: "safePath demoHost [''a.txt''] = Inr ''/srv/storage/a.txt''"
  by (simp add: safePath_def resolvedPath_def demoHost_def posix_resolve_def posix_normalize_def
                posix_join_def normalizeString_def isAbsolute_def)

lemma safePath_demo_missing: "safePath demoHost [''missing.txt''] = Inr ''/srv/storage/missing.txt''"
  by (simp add: safePath_def resolvedPath_def demoHost_def posix_resolve_def posix_normalize_def
                posix_join_def normalizeString_def isAbsolute_def)

lemma safePath_demo_up: "safePath demoHost [''../..''] = Inl traversalError"
  by (simp add: safePath_def resolvedPath_def demoHost_def posix_resolve_def posix_normalize_def
                posix_join_def normalizeString_def isAbsolute_def)

lemma map_of_demo_a: "map_of (files demoWorld) ''/srv/storage/a.txt'' = Some (File 0)"
  by (simp add: demoWorld_def demoFiles_def)

lemma map_of_demo_missing: "map_of (files demoWorld) ''/srv/storage/missing.txt'' = None"
  by (simp add: demoWorld_def demoFiles_def)

text \<open>
  The statement of claim C3 fails for \<open>POST /move\<close>: the target \<open>../..\<close> does not resolve,
  but the handler has stat'ed the source before it resolves the target. With an
  existing source the traversal error is thrown after that call; with a missing source
  the stat throws first, and the request ends with \<open>ENOENT\<close> and the answer
  \<open>500 Error moving item\<close>.
\<close>

theorem move_stats_source_before_resolving_target:
  "safePath demoHost [''../..''] = Inl traversalError \<and>
   move_try demoHost (Some ''a.txt'') (Some ''../..'') demoWorld =
     (Inl traversalError, demoWorld\<lparr>calls := [Stat ''/srv/storage/a.txt'']\<rparr>) \<and>
   move_try demoHost (Some ''missing.txt'') (Some ''../..'') demoWorld =
     (Inl (SystemError ENOENT ''stat'' ''/srv/storage/missing.txt'' None),
      demoWorld\<lparr>calls := [Stat ''/srv/storage/missing.txt'']\<rparr>) \<and>
   move_route demoHost (Some ''missing.txt'') (Some ''../..'') demoWorld =
     (Send 500 ''Error moving item'', demoWorld\<lparr>calls := [Stat ''/srv/storage/missing.txt'']\<rparr>)"
proof (intro conjI)
  show "safePath demoHost [''../..''] = Inl traversalError"
    by (rule safePath_demo_up)
  have a: "move_try demoHost (Some ''a.txt'') (Some ''../..'') demoWorld =
      (Inl traversalError, logCall (Stat ''/srv/storage/a.txt'') demoWorld)"
    using move_target_rejected_try [of "''a.txt''" "''../..''" demoHost "''/srv/storage/a.txt''" demoWorld]
    by (simp add: safePath_demo_a safePath_demo_up map_of_demo_a)
  then show "move_try demoHost (Some ''a.txt'') (Some ''../..'') demoWorld =
     (Inl traversalError, demoWorld\<lparr>calls := [Stat ''/srv/storage/a.txt'']\<rparr>)"
    by (simp add: logCall_def demoWorld_def)
  have m: "move_try demoHost (Some ''missing.txt'') (Some ''../..'') demoWorld =
      (Inl (SystemError ENOENT ''stat'' ''/srv/storage/missing.txt'' None),
       logCall (Stat ''/srv/storage/missing.txt'') demoWorld)"
    using move_target_rejected_try [of "''missing.txt''" "''../..''" demoHost
        "''/srv/storage/missing.txt''" demoWorld]
    by (simp add: safePath_demo_missing safePath_demo_up map_of_demo_missing)
  then show "move_try demoHost (Some ''missing.txt'') (Some ''../..'') demoWorld =
     (Inl (SystemError ENOENT ''stat'' ''/srv/storage/missing.txt'' None),
      demoWorld\<lparr>calls := [Stat ''/srv/storage/missing.txt'']\<rparr>)"
    by (simp add: logCall_def demoWorld_def)
  show "move_route demoHost (Some ''missing.txt'') (Some ''../..'') demoWorld =
     (Send 500 ''Error moving item'', demoWorld\<lparr>calls := [Stat ''/srv/storage/missing.txt'']\<rparr>)"
    unfolding move_route_def respond_def catchIO_def m
    by (simp add: move_catch_def logCall_def demoWorld_def includesStr_def)
qed

text \<open>
  Claim C3, amended. \<open>safePath\<close> is a function of its arguments and the host constants
  alone, and the only error it returns is the traversal error. In every handler but
  \<open>POST /move\<close>, a path that fails to resolve makes the \<open>try\<close> block throw the traversal
  error with the world unchanged, no call logged: in \<open>GET /\<close>, \<open>GET /download\<close>,
  \<open>GET /preview\<close> and \<open>POST /delete\<close> for the path of the request; in \<open>POST /upload\<close>
  for the target directory, when the request carries a file (without one the handler
  answers 400 and resolves nothing); in \<open>POST /create-folder\<close> for the parent joined
  with the sanitized name, when the name is not empty and not empty once sanitized
  (otherwise the handler answers 400 and resolves nothing); in \<open>POST /rename\<close> for the
  old path and for its directory joined with the sanitized new name, both names being
  strings. \<open>POST /create-folder\<close> answers 403, the others their generic 500.
  \<open>POST /move\<close>, given a source and a target that are not empty (otherwise it answers
  400 and resolves nothing), does the same when its source fails to resolve, and
  answers 403. When the source resolves and the target does not, the world differs by
  one logged call, the stat of the source, and the files are unchanged; the answer is
  403 when the source exists.
\<close>

theorem resolution_failure_leaves_files_unchanged:
  "(safePath h paths = Inl e \<longrightarrow> e = traversalError) \<and>
   (safePath h [orEmpty q] = Inl traversalError \<longrightarrow>
      list_try h q w = (Inl traversalError, w) \<and>
      list_route h q w = (Send 500 ''Error reading directory'', w)) \<and>
   (safePath h [orEmpty dq] = Inl traversalError \<longrightarrow>
      download_try h dq w = (Inl traversalError, w) \<and>
      download_route h dq w = (Send 500 ''Error downloading file'', w)) \<and>
   (safePath h [pq] = Inl traversalError \<longrightarrow>
      preview_try h (Some pq) w = (Inl traversalError, w) \<and>
      preview_route h (Some pq) w = (Send 500 ''Error generating preview'', w)) \<and>
   (formFields \<noteq> [] \<and> safePath h [orEmpty uq] = Inl traversalError \<longrightarrow>
      upload_try h (Some formFields) uq w = (Inl traversalError, w) \<and>
      upload_route h (Some formFields) uq w = (Send 500 ''Error uploading files'', w)) \<and>
   (safePath h [p] = Inl traversalError \<longrightarrow>
      delete_try h (Some p) w = (Inl traversalError, w) \<and>
      delete_route h (Some p) w = (Send 500 ''Error deleting item'', w)) \<and>
   (folderName \<noteq> [] \<and> sanitize folderName \<noteq> [] \<and>
    safePath h [orEmpty parent, sanitize folderName] = Inl traversalError \<longrightarrow>
      create_folder_try h (Some folderName) parent w = (Inl traversalError, w) \<and>
      create_folder_route h (Some folderName) parent w =
        (Send 403 ''Invalid folder location'', w)) \<and>
   (safePath h [oldPath] = Inl traversalError \<or>
    safePath h [posix_dirname oldPath, sanitize newName] = Inl traversalError \<longrightarrow>
      rename_try h (Some oldPath) (Some newName) w = (Inl traversalError, w) \<and>
      rename_route h (Some oldPath) (Some newName) w = (Send 500 ''Error renaming item'', w)) \<and>
   (source \<noteq> [] \<and> target \<noteq> [] \<and> safePath h [source] = Inl traversalError \<longrightarrow>
      move_try h (Some source) (Some target) w = (Inl traversalError, w) \<and>
      move_route h (Some source) (Some target) w = (Send 403 ''Invalid path'', w)) \<and>
   (source \<noteq> [] \<and> target \<noteq> [] \<and> safePath h [source] = Inr sp \<and>
    (safePath h [target, posix_basename sp] = Inl traversalError \<or>
     safePath h [target] = Inl traversalError) \<longrightarrow>
      files (snd (move_route h (Some source) (Some target) w)) = files w \<and>
      calls (snd (move_route h (Some source) (Some target) w)) = calls w @ [Stat sp] \<and>
      (map_of (files w) sp \<noteq> None \<longrightarrow>
         fst (move_route h (Some source) (Some target) w) = Send 403 ''Invalid path''))"
proof (intro conjI impI)
  assume "safePath h paths = Inl e"
  then show "e = traversalError" by (rule safePath_Inl)
next
  assume a: "safePath h [orEmpty q] = Inl traversalError"
  show "list_try h q w = (Inl traversalError, w)"
    by (rule list_rejected(1) [OF a])
  show "list_route h q w = (Send 500 ''Error reading directory'', w)"
    by (rule list_rejected(2) [OF a])
next
  assume a: "safePath h [orEmpty dq] = Inl traversalError"
  show "download_try h dq w = (Inl traversalError, w)"
    by (rule download_rejected(1) [OF a])
  show "download_route h dq w = (Send 500 ''Error downloading file'', w)"
    by (rule download_rejected(2) [OF a])
next
  assume a: "safePath h [pq] = Inl traversalError"
  show "preview_try h (Some pq) w = (Inl traversalError, w)"
    by (rule preview_rejected(1) [OF a])
  show "preview_route h (Some pq) w = (Send 500 ''Error generating preview'', w)"
    by (rule preview_rejected(2) [OF a])
next
  assume a: "formFields \<noteq> [] \<and> safePath h [orEmpty uq] = Inl traversalError"
  show "upload_try h (Some formFields) uq w = (Inl traversalError, w)"
    using a by (intro upload_rejected(1)) simp_all
  show "upload_route h (Some formFields) uq w = (Send 500 ''Error uploading files'', w)"
    using a by (intro upload_rejected(2)) simp_all
next
  assume a: "safePath h [p] = Inl traversalError"
  show "delete_try h (Some p) w = (Inl traversalError, w)"
    by (rule delete_rejected(1) [OF a])
  show "delete_route h (Some p) w = (Send 500 ''Error deleting item'', w)"
    by (rule delete_rejected(2) [OF a])
next
  assume a: "folderName \<noteq> [] \<and> sanitize folderName \<noteq> [] \<and>
    safePath h [orEmpty parent, sanitize folderName] = Inl traversalError"
  show "create_folder_try h (Some folderName) parent w = (Inl traversalError, w)"
    using a by (intro create_folder_rejected(1)) simp_all
  show "create_folder_route h (Some folderName) parent w = (Send 403 ''Invalid folder location'', w)"
    using a by (intro create_folder_rejected(2)) simp_all
next
  assume a: "safePath h [oldPath] = Inl traversalError \<or>
    safePath h [posix_dirname oldPath, sanitize newName] = Inl traversalError"
  show "rename_try h (Some oldPath) (Some newName) w = (Inl traversalError, w)"
    by (rule rename_rejected(1) [OF a])
  show "rename_route h (Some oldPath) (Some newName) w = (Send 500 ''Error renaming item'', w)"
    by (rule rename_rejected(2) [OF a])
next
  assume a: "source \<noteq> [] \<and> target \<noteq> [] \<and> safePath h [source] = Inl traversalError"
  show "move_try h (Some source) (Some target) w = (Inl traversalError, w)"
    using a by (intro move_source_rejected(1)) simp_all
  show "move_route h (Some source) (Some target) w = (Send 403 ''Invalid path'', w)"
    using a by (intro move_source_rejected(2)) simp_all
next
  assume a: "source \<noteq> [] \<and> target \<noteq> [] \<and> safePath h [source] = Inr sp \<and>
    (safePath h [target, posix_basename sp] = Inl traversalError \<or>
     safePath h [target] = Inl traversalError)"
  then have snd: "snd (move_route h (Some source) (Some target) w) = logCall (Stat sp) w"
    by (intro move_target_rejected(1)) simp_all
  show "files (snd (move_route h (Some source) (Some target) w)) = files w"
    by (simp add: snd)
  show "calls (snd (move_route h (Some source) (Some target) w)) = calls w @ [Stat sp]"
    by (simp add: snd)
  assume "map_of (files w) sp \<noteq> None"
  with a have "move_route h (Some source) (Some target) w =
      (Send 403 ''Invalid path'', logCall (Stat sp) w)"
    by (intro move_target_rejected(2)) simp_all
  then show "fst (move_route h (Some source) (Some target) w) = Send 403 ''Invalid path''"
    by simp
qed

lemmas path_eval =
  safePath_def resolvedPath_def posix_resolve_def posix_normalize_def posix_join_def
  normalizeString_def isAbsolute_def

lemmas sanitize_eval =
  sanitize_def illegalChar_def controlChar_def reservedName_def windowsReserved_def
  windowsDevices_def lowerChar_def stripTrailing_def utf8Length_def

theorem resolution_failure_leaves_files_unchanged_witness:
  "safePath demoHost [''../..''] = Inl traversalError \<and>
   list_route demoHost (Some ''../..'') demoWorld =
     (Send 500 ''Error reading directory'', demoWorld) \<and>
   download_route demoHost (Some ''../..'') demoWorld =
     (Send 500 ''Error downloading file'', demoWorld) \<and>
   preview_route demoHost (Some ''../..'') demoWorld =
     (Send 500 ''Error generating preview'', demoWorld) \<and>
   upload_route demoHost
       (Some [(''files'', [\<lparr>upload_name = ''n.txt'', upload_length = 3\<rparr>])])
       (Some ''../..'') demoWorld =
     (Send 500 ''Error uploading files'', demoWorld) \<and>
   delete_route demoHost (Some ''../..'') demoWorld =
     (Send 500 ''Error deleting item'', demoWorld) \<and>
   create_folder_route demoHost (Some ''X'') (Some ''../..'') demoWorld =
     (Send 403 ''Invalid folder location'', demoWorld) \<and>
   rename_route demoHost (Some ''../../x'') (Some ''y'') demoWorld =
     (Send 500 ''Error renaming item'', demoWorld) \<and>
   move_route demoHost (Some ''../..'') (Some ''docs'') demoWorld =
     (Send 403 ''Invalid path'', demoWorld) \<and>
   files (snd (move_route demoHost (Some ''a.txt'') (Some ''../..'') demoWorld)) = files demoWorld \<and>
   calls (snd (move_route demoHost (Some ''a.txt'') (Some ''../..'') demoWorld)) =
     [Stat ''/srv/storage/a.txt''] \<and>
   fst (move_route demoHost (Some ''a.txt'') (Some ''../..'') demoWorld) = Send 403 ''Invalid path''"
proof -
  have up: "safePath demoHost [orEmpty (Some ''../..'')] = Inl traversalError"
    by (simp add: orEmpty_def safePath_demo_up)
  have sx: "sanitize ''X'' = ''X''" and sy: "sanitize ''y'' = ''y''"
    by (simp_all add: sanitize_eval)
  have cf: "safePath demoHost [orEmpty (Some ''../..''), sanitize ''X''] = Inl traversalError"
    unfolding sx by (simp add: orEmpty_def path_eval demoHost_def)
  have rn: "safePath demoHost [''../../x''] = Inl traversalError"
    by (simp add: path_eval demoHost_def)
  note one = resolution_failure_leaves_files_unchanged
    [where h = demoHost and q = "Some ''../..''" and w = demoWorld and p = "''../..''"
       and dq = "Some ''../..''" and pq = "''../..''" and uq = "Some ''../..''"
       and formFields = "[(''files'', [\<lparr>upload_name = ''n.txt'', upload_length = 3\<rparr>])]"
       and folderName = "''X''" and parent = "Some ''../..''" and oldPath = "''../../x''"
       and newName = "''y''" and source = "''../..''" and target = "''docs''"]
  note two = resolution_failure_leaves_files_unchanged
    [where h = demoHost and w = demoWorld and source = "''a.txt''" and target = "''../..''"
       and sp = "''/srv/storage/a.txt''"]
  note rest1 = one [THEN conjunct2]
  note rest2 = rest1 [THEN conjunct2]
  note rest3 = rest2 [THEN conjunct2]
  note rest4 = rest3 [THEN conjunct2]
  note rest5 = rest4 [THEN conjunct2]
  note rest6 = rest5 [THEN conjunct2]
  note rest7 = rest6 [THEN conjunct2]
  note rest8 = rest7 [THEN conjunct2]
  have "list_route demoHost (Some ''../..'') demoWorld =
      (Send 500 ''Error reading directory'', demoWorld)"
    using rest1 [THEN conjunct1] up by simp
  moreover have "download_route demoHost (Some ''../..'') demoWorld =
      (Send 500 ''Error downloading file'', demoWorld)"
    using rest2 [THEN conjunct1] up by simp
  moreover have "preview_route demoHost (Some ''../..'') demoWorld =
      (Send 500 ''Error generating preview'', demoWorld)"
    using rest3 [THEN conjunct1] safePath_demo_up by simp
  moreover have "upload_route demoHost
       (Some [(''files'', [\<lparr>upload_name = ''n.txt'', upload_length = 3\<rparr>])])
       (Some ''../..'') demoWorld =
      (Send 500 ''Error uploading files'', demoWorld)"
    using rest4 [THEN conjunct1] up by simp
  moreover have "delete_route demoHost (Some ''../..'') demoWorld =
      (Send 500 ''Error deleting item'', demoWorld)"
    using rest5 [THEN conjunct1] safePath_demo_up by simp
  moreover have "create_folder_route demoHost (Some ''X'') (Some ''../..'') demoWorld =
      (Send 403 ''Invalid folder location'', demoWorld)"
    using rest6 [THEN conjunct1] cf by (simp add: sx)
  moreover have "rename_route demoHost (Some ''../../x'') (Some ''y'') demoWorld =
      (Send 500 ''Error renaming item'', demoWorld)"
    using rest7 [THEN conjunct1] rn by simp
  moreover have "move_route demoHost (Some ''../..'') (Some ''docs'') demoWorld =
      (Send 403 ''Invalid path'', demoWorld)"
    using rest8 [THEN conjunct1] safePath_demo_up by simp
  moreover have
    "files (snd (move_route demoHost (Some ''a.txt'') (Some ''../..'') demoWorld)) = files demoWorld \<and>
     calls (snd (move_route demoHost (Some ''a.txt'') (Some ''../..'') demoWorld)) =
       calls demoWorld @ [Stat ''/srv/storage/a.txt''] \<and>
     fst (move_route demoHost (Some ''a.txt'') (Some ''../..'') demoWorld) = Send 403 ''Invalid path''"
    using two [THEN conjunct2, THEN conjunct2, THEN conjunct2, THEN conjunct2, THEN conjunct2,
               THEN conjunct2, THEN conjunct2, THEN conjunct2, THEN conjunct2]
      safePath_demo_a safePath_demo_up map_of_demo_a
    by simp
  ultimately show ?thesis
    using safePath_demo_up by (simp add: demoWorld_def)
qed

subsection \<open>Download, preview and upload of a request that resolves\<close>

lemma safePath_demo_report:
  "safePath demoHost [''docs/report.txt''] = Inr ''/srv/storage/docs/report.txt''"
  by (simp add: path_eval demoHost_def)

lemma map_of_demo_report:
  "map_of (files demoWorld) ''/srv/storage/docs/report.txt'' = Some (File 1536)"
  by (simp add: demoWorld_def demoFiles_def)

lemma mimeTypeOf_demo_report:
  "mimeTypeOf demoHost ''/srv/storage/docs/report.txt'' = ''text/plain''"
  by (simp add: mimeTypeOf_def demoHost_def demoMimeLookup_def suffix_def)

lemma bindIO_createReadStream:
  "bindIO (createReadStream p) f w = f () (logCall (ReadStream p) w)"
  by (simp add: bindIO_def createReadStream_def)

lemma download_demo:
  "download_route demoHost (Some ''docs/report.txt'') demoWorld =
     (Pipe [(''Content-Type'', ''text/plain''),
            (''Content-Disposition'', ''attachment; filename='' @ [CHR 0x22] @ ''report.txt'' @ [CHR 0x22])]
        ''/srv/storage/docs/report.txt'',
      demoWorld\<lparr>calls := [Stat ''/srv/storage/docs/report.txt'',
                           ReadStream ''/srv/storage/docs/report.txt'']\<rparr>)"
proof -
  let ?p = "''/srv/storage/docs/report.txt''"
  have stat: "bindIO (fs_stat ?p) f demoWorld = f (File 1536) (logCall (Stat ?p) demoWorld)"
    for f :: "node \<Rightarrow> response io"
    by (rule bindIO_Inr) (simp add: fs_stat_Some map_of_demo_report)
  have "download_try demoHost (Some ''docs/report.txt'') demoWorld =
      (Inr (Pipe [(''Content-Type'', ''text/plain''),
            (''Content-Disposition'', ''attachment; filename='' @ [CHR 0x22] @ ''report.txt'' @ [CHR 0x22])] ?p),
       logCall (ReadStream ?p) (logCall (Stat ?p) demoWorld))"
    by (simp add: download_try_def orEmpty_def safePath_demo_report stat isFile_def
                  mimeTypeOf_demo_report posix_basename_def bindIO_createReadStream)
  then show ?thesis
    by (simp add: download_route_def respond_def catchIO_def logCall_def demoWorld_def)
qed

lemma preview_demo:
  "preview_route demoHost (Some ''docs/report.txt'') demoWorld =
     (SendBuffer [(''Content-Type'', ''text/plain'')] 1536,
      demoWorld\<lparr>calls := [Stat ''/srv/storage/docs/report.txt'',
                           ReadFile ''/srv/storage/docs/report.txt'']\<rparr>)"
proof -
  let ?p = "''/srv/storage/docs/report.txt''"
  have stat: "bindIO (fs_stat ?p) f demoWorld = f (File 1536) (logCall (Stat ?p) demoWorld)"
    for f :: "node \<Rightarrow> response io"
    by (rule bindIO_Inr) (simp add: fs_stat_Some map_of_demo_report)
  have rd: "fs_readFile ?p (logCall (Stat ?p) demoWorld) =
      (Inr 1536, logCall (ReadFile ?p) (logCall (Stat ?p) demoWorld))"
    by (simp add: fs_readFile_def logCall_def demoWorld_def demoFiles_def)
  have rd': "bindIO (fs_readFile ?p) f (logCall (Stat ?p) demoWorld) =
      f 1536 (logCall (ReadFile ?p) (logCall (Stat ?p) demoWorld))" for f :: "nat \<Rightarrow> response io"
    by (rule bindIO_Inr) (rule rd)
  have "preview_try demoHost (Some ''docs/report.txt'') demoWorld =
      (Inr (SendBuffer [(''Content-Type'', ''text/plain'')] 1536),
       logCall (ReadFile ?p) (logCall (Stat ?p) demoWorld))"
    by (simp add: preview_try_def safePath_demo_report stat isFile_def fileSize_def
                  mimeTypeOf_demo_report rd')
  then show ?thesis
    by (simp add: preview_route_def respond_def catchIO_def logCall_def demoWorld_def)
qed

lemma upload_demo:
  "upload_route demoHost (Some [(''files'', [\<lparr>upload_name = ''n/o.txt'', upload_length = 3\<rparr>])])
     (Some ''docs'') demoWorld =
     (Send 200 ''Files uploaded successfully'',
      \<lparr>files = demoFiles @ [(''/srv/storage/docs/no.txt'', File 3)],
        calls = [ExistsSync ''/srv/storage/docs'', ExistsSync ''/srv/storage/docs'',
                 WriteStream ''/srv/storage/docs/no.txt'']\<rparr>)"
proof -
  have docs: "safePath demoHost [''docs''] = Inr ''/srv/storage/docs''"
    by (simp add: path_eval demoHost_def)
  have nm: "sanitize ''n/o.txt'' = ''no.txt''"
    by (simp add: sanitize_eval)
  have j: "posix_join [''/srv/storage/docs'', ''no.txt''] = ''/srv/storage/docs/no.txt''"
    by (simp add: posix_join_def posix_normalize_def normalizeString_def isAbsolute_def)
  have d: "posix_dirname ''/srv/storage/docs/no.txt'' = ''/srv/storage/docs''"
    by (simp add: posix_dirname_def)
  have mv: "file_mv \<lparr>upload_name = ''n/o.txt'', upload_length = 3\<rparr> ''/srv/storage/docs/no.txt''
      demoWorld =
      (Inr (), \<lparr>files = demoFiles @ [(''/srv/storage/docs/no.txt'', File 3)],
        calls = [ExistsSync ''/srv/storage/docs'', ExistsSync ''/srv/storage/docs'',
                 WriteStream ''/srv/storage/docs/no.txt'']\<rparr>)"
    by (simp add: file_mv_def checkAndMakeDir_def d bindIO_def existsSync_def Let_def
                  writeStream_def parentError_def logCall_def demoWorld_def demoFiles_def)
  have files: "moveFiles ''/srv/storage/docs'' [Some \<lparr>upload_name = ''n/o.txt'', upload_length = 3\<rparr>]
      demoWorld =
      (Inr (), \<lparr>files = demoFiles @ [(''/srv/storage/docs/no.txt'', File 3)],
        calls = [ExistsSync ''/srv/storage/docs'', ExistsSync ''/srv/storage/docs'',
                 WriteStream ''/srv/storage/docs/no.txt'']\<rparr>)"
    by (simp add: nm j mv)
  have files': "bindIO (moveFiles ''/srv/storage/docs''
        [Some \<lparr>upload_name = ''n/o.txt'', upload_length = 3\<rparr>]) f demoWorld =
      f () \<lparr>files = demoFiles @ [(''/srv/storage/docs/no.txt'', File 3)],
        calls = [ExistsSync ''/srv/storage/docs'', ExistsSync ''/srv/storage/docs'',
                 WriteStream ''/srv/storage/docs/no.txt'']\<rparr>" for f :: "unit \<Rightarrow> response io"
    by (rule bindIO_Inr) (rule files)
  have "upload_try demoHost (Some [(''files'', [\<lparr>upload_name = ''n/o.txt'', upload_length = 3\<rparr>])])
     (Some ''docs'') demoWorld =
     (Inr (Send 200 ''Files uploaded successfully''),
      \<lparr>files = demoFiles @ [(''/srv/storage/docs/no.txt'', File 3)],
        calls = [ExistsSync ''/srv/storage/docs'', ExistsSync ''/srv/storage/docs'',
                 WriteStream ''/srv/storage/docs/no.txt'']\<rparr>)"
    by (simp add: upload_try_def orEmpty_def docs files')
  then show ?thesis
    by (simp add: upload_route_def respond_def catchIO_def)
qed

section \<open>Moving onto an occupied name, and renaming to an empty name\<close>

lemma existsSync_apply:
  "existsSync p w = (Inr (map_of (files w) p \<noteq> None), logCall (ExistsSync p) w)"
  by (simp add: existsSync_def)

lemma move_conflict_try:
  assumes "source \<noteq> []" and "target \<noteq> []"
    and "safePath h [source] = Inr sp" and "map_of (files w) sp = Some n"
    and "safePath h [target] = Inr td" and "map_of (files w) td = Some Directory"
    and "safePath h [target, posix_basename sp] = Inr tp" and "map_of (files w) tp = Some m"
  shows "move_try h (Some source) (Some target) w =
           (Inr (Send 409 ''A file or folder with this name already exists in the destination''),
            w\<lparr>calls := calls w @ [Stat sp, Stat td, ExistsSync tp]\<rparr>)"
proof -
  let ?w1 = "logCall (Stat sp) w"
  let ?w2 = "logCall (Stat td) ?w1"
  have stat1: "bindIO (fs_stat sp) f w = f n ?w1" for f :: "node \<Rightarrow> response io"
    by (rule bindIO_Inr) (simp add: fs_stat_Some assms(4))
  have stat2: "bindIO (fs_stat td) f ?w1 = f Directory ?w2" for f :: "node \<Rightarrow> response io"
    by (rule bindIO_Inr) (simp add: fs_stat_Some assms(6))
  have ex: "bindIO (existsSync tp) f ?w2 = f True (logCall (ExistsSync tp) ?w2)"
    for f :: "bool \<Rightarrow> response io"
    by (rule bindIO_Inr) (simp add: existsSync_apply assms(8))
  have "move_try h (Some source) (Some target) w =
           (Inr (Send 409 ''A file or folder with this name already exists in the destination''),
            logCall (ExistsSync tp) ?w2)"
    using assms(1,2)
    by (simp add: move_try_def falsy_def assms(3,5,7) stat1 stat2 ex isDirectory_def)
  then show ?thesis
    by (simp add: logCall_def)
qed

text \<open>
  Claim C4 fails as stated when the source or the target directory is the empty
  string, which the specification lets denote the storage root: the handler answers
  400 before it looks at the filesystem, although \<open>a.txt\<close> exists in the root.
\<close>

theorem move_to_empty_target_is_400:
  "safePath demoHost [''archive/a.txt''] = Inr ''/srv/storage/archive/a.txt'' \<and>
   map_of (files demoWorld) ''/srv/storage/archive/a.txt'' = Some (File 10) \<and>
   safePath demoHost [''''] = Inr ''/srv/storage'' \<and>
   map_of (files demoWorld) ''/srv/storage'' = Some Directory \<and>
   safePath demoHost ['''', posix_basename ''/srv/storage/archive/a.txt''] =
     Inr ''/srv/storage/a.txt'' \<and>
   map_of (files demoWorld) ''/srv/storage/a.txt'' = Some (File 0) \<and>
   move_route demoHost (Some ''archive/a.txt'') (Some '''') demoWorld =
     (Send 400 ''Source and target paths are required'', demoWorld)"
  by (simp add: path_eval demoHost_def demoWorld_def demoFiles_def posix_basename_def
                move_route_def move_try_def falsy_def respond_def catchIO_def)

text \<open>
  Claim C4, amended. For a source and a target directory that are not empty strings:
  when the source resolves to an existing entry, the target resolves to an existing
  directory and an entry exists at \<open>targetPath\<close>, the resolved path of the target joined
  with the base name of the source, the handler answers 409. It has made three calls,
  two stats and one existence check, and no rename: the table of files is unchanged.
  With an absolute storage root, \<open>targetPath\<close> is the entry of the target directory named
  by the base name of the source. When the source or the target is missing or empty,
  the handler answers 400 and the world is unchanged.
\<close>

theorem move_conflict_is_409:
  "(source \<noteq> [] \<and> target \<noteq> [] \<and>
    safePath h [source] = Inr sp \<and> map_of (files w) sp = Some n \<and>
    safePath h [target] = Inr td \<and> map_of (files w) td = Some Directory \<and>
    safePath h [target, posix_basename sp] = Inr tp \<and> map_of (files w) tp = Some m \<longrightarrow>
      move_route h (Some source) (Some target) w =
        (Send 409 ''A file or folder with this name already exists in the destination'',
         w\<lparr>calls := calls w @ [Stat sp, Stat td, ExistsSync tp]\<rparr>)) \<and>
   (isAbsolute (STORAGE_DIR h) \<and> safePath h [source] = Inr sp \<and>
    safePath h [target] = Inr td \<and> posix_basename sp \<noteq> [] \<longrightarrow>
      safePath h [target, posix_basename sp] = Inr (dirPrefix td @ posix_basename sp)) \<and>
   (falsy s \<or> falsy t \<longrightarrow>
      move_route h s t w = (Send 400 ''Source and target paths are required'', w))"
proof (intro conjI impI)
  assume a: "source \<noteq> [] \<and> target \<noteq> [] \<and>
    safePath h [source] = Inr sp \<and> map_of (files w) sp = Some n \<and>
    safePath h [target] = Inr td \<and> map_of (files w) td = Some Directory \<and>
    safePath h [target, posix_basename sp] = Inr tp \<and> map_of (files w) tp = Some m"
  then have "move_try h (Some source) (Some target) w =
           (Inr (Send 409 ''A file or folder with this name already exists in the destination''),
            w\<lparr>calls := calls w @ [Stat sp, Stat td, ExistsSync tp]\<rparr>)"
    by (intro move_conflict_try) simp_all
  then show "move_route h (Some source) (Some target) w =
        (Send 409 ''A file or folder with this name already exists in the destination'',
         w\<lparr>calls := calls w @ [Stat sp, Stat td, ExistsSync tp]\<rparr>)"
    by (simp add: move_route_def respond_def catchIO_def)
next
  assume b: "isAbsolute (STORAGE_DIR h) \<and> safePath h [source] = Inr sp \<and>
    safePath h [target] = Inr td \<and> posix_basename sp \<noteq> []"
  then have "canonicalPath sp"
    using safePath_canonical by blast
  with b have "cleanSeg (posix_basename sp)" "plainSeg (posix_basename sp)"
    using posix_basename_canonical by blast+
  with b show "safePath h [target, posix_basename sp] = Inr (dirPrefix td @ posix_basename sp)"
    using safePath_child by blast
next
  assume "falsy s \<or> falsy t"
  then show "move_route h s t w = (Send 400 ''Source and target paths are required'', w)"
    by (simp add: move_route_def move_try_def respond_def catchIO_def)
qed

lemma safePath_demo_archive: "safePath demoHost [''archive''] = Inr ''/srv/storage/archive''"
  by (simp add: path_eval demoHost_def)

lemma safePath_demo_archive_a:
  "safePath demoHost [''archive'', posix_basename ''/srv/storage/a.txt''] =
     Inr ''/srv/storage/archive/a.txt''"
  by (simp add: path_eval demoHost_def posix_basename_def)

theorem move_conflict_is_409_witness:
  "move_route demoHost (Some ''a.txt'') (Some ''archive'') demoWorld =
     (Send 409 ''A file or folder with this name already exists in the destination'',
      demoWorld\<lparr>calls := [Stat ''/srv/storage/a.txt'', Stat ''/srv/storage/archive'',
                           ExistsSync ''/srv/storage/archive/a.txt'']\<rparr>) \<and>
   safePath demoHost [''archive'', posix_basename ''/srv/storage/a.txt''] =
     Inr (dirPrefix ''/srv/storage/archive'' @ posix_basename ''/srv/storage/a.txt'') \<and>
   move_route demoHost (Some ''a.txt'') None demoWorld =
     (Send 400 ''Source and target paths are required'', demoWorld)"
proof -
  have arch: "map_of (files demoWorld) ''/srv/storage/archive'' = Some Directory"
    and dest: "map_of (files demoWorld) ''/srv/storage/archive/a.txt'' = Some (File 10)"
    by (simp_all add: demoWorld_def demoFiles_def)
  note one = move_conflict_is_409
    [where h = demoHost and w = demoWorld and source = "''a.txt''" and target = "''archive''"
       and sp = "''/srv/storage/a.txt''" and n = "File 0" and td = "''/srv/storage/archive''"
       and tp = "''/srv/storage/archive/a.txt''" and m = "File 10" and s = "Some ''a.txt''"
       and t = None]
  have "move_route demoHost (Some ''a.txt'') (Some ''archive'') demoWorld =
     (Send 409 ''A file or folder with this name already exists in the destination'',
      demoWorld\<lparr>calls := calls demoWorld @ [Stat ''/srv/storage/a.txt'', Stat ''/srv/storage/archive'',
                           ExistsSync ''/srv/storage/archive/a.txt'']\<rparr>)"
    using one [THEN conjunct1] safePath_demo_a map_of_demo_a safePath_demo_archive arch
      safePath_demo_archive_a dest
    by simp
  moreover have "safePath demoHost [''archive'', posix_basename ''/srv/storage/a.txt''] =
     Inr (dirPrefix ''/srv/storage/archive'' @ posix_basename ''/srv/storage/a.txt'')"
    using one [THEN conjunct2, THEN conjunct1] safePath_demo_a safePath_demo_archive
    by (simp add: isAbsolute_def demoHost_def posix_basename_def)
  moreover have "move_route demoHost (Some ''a.txt'') None demoWorld =
     (Send 400 ''Source and target paths are required'', demoWorld)"
    using one [THEN conjunct2, THEN conjunct2] by (simp add: falsy_def)
  ultimately show ?thesis
    by (simp add: demoWorld_def)
qed

lemma sanitize_dotdot: "sanitize ''..'' = []"
  by (simp add: sanitize_eval)

lemma create_folder_empty_name:
  assumes "sanitize folderName = []"
  shows "create_folder_route h (Some folderName) parent w =
           (Send 400 (if folderName = [] then ''Folder name is required''
                      else ''Invalid folder name''), w)"
  using assms
  by (simp add: create_folder_route_def create_folder_try_def respond_def catchIO_def
                falsy_def sanitizeJS_def)

text \<open>
  Claim C6 holds for \<open>POST /create-folder\<close> (lemma \<open>create_folder_empty_name\<close>) and
  fails for \<open>POST /rename\<close>, which does not look at the sanitized name: \<open>..\<close> sanitizes
  to the empty string, the new path resolves to the directory of the old path, and
  \<open>fs.rename\<close> is called with it. The answer is the generic 500 of a failed rename, not
  an invalid-name error.
\<close>

theorem rename_to_empty_name_calls_rename:
  "sanitize ''..'' = [] \<and>
   rename_route demoHost (Some ''docs/report.txt'') (Some ''..'') demoWorld =
     (Send 500 ''Error renaming item'',
      demoWorld\<lparr>calls := [Rename ''/srv/storage/docs/report.txt'' ''/srv/storage/docs'']\<rparr>) \<and>
   create_folder_route demoHost (Some ''..'') (Some ''docs'') demoWorld =
     (Send 400 ''Invalid folder name'', demoWorld)"
proof (intro conjI)
  show "sanitize ''..'' = []" by (rule sanitize_dotdot)
  have old: "safePath demoHost [''docs/report.txt''] = Inr ''/srv/storage/docs/report.txt''"
    by (simp add: path_eval demoHost_def)
  have new: "safePath demoHost [posix_dirname ''docs/report.txt'', []] = Inr ''/srv/storage/docs''"
    by (simp add: path_eval demoHost_def posix_dirname_def)
  have ren: "renameResult (files demoWorld) ''/srv/storage/docs/report.txt'' ''/srv/storage/docs''
      = Inl ENOTEMPTY"
    by (simp add: renameResult_def parentError_def demoWorld_def demoFiles_def isUnder_def
                  dirPrefix_def posix_dirname_def isDirectory_def)
  have "fs_rename ''/srv/storage/docs/report.txt'' ''/srv/storage/docs'' demoWorld =
      (Inl (SystemError ENOTEMPTY ''rename'' ''/srv/storage/docs/report.txt''
              (Some ''/srv/storage/docs'')),
       logCall (Rename ''/srv/storage/docs/report.txt'' ''/srv/storage/docs'') demoWorld)"
    by (simp add: fs_rename_def ren)
  then have call: "bindIO (fs_rename ''/srv/storage/docs/report.txt'' ''/srv/storage/docs'') f
      demoWorld =
      (Inl (SystemError ENOTEMPTY ''rename'' ''/srv/storage/docs/report.txt''
              (Some ''/srv/storage/docs'')),
       logCall (Rename ''/srv/storage/docs/report.txt'' ''/srv/storage/docs'') demoWorld)"
    for f :: "unit \<Rightarrow> response io"
    by (rule bindIO_Inl)
  have "rename_try demoHost (Some ''docs/report.txt'') (Some ''..'') demoWorld =
      (Inl (SystemError ENOTEMPTY ''rename'' ''/srv/storage/docs/report.txt''
              (Some ''/srv/storage/docs'')),
       logCall (Rename ''/srv/storage/docs/report.txt'' ''/srv/storage/docs'') demoWorld)"
    by (simp add: rename_try_def sanitizeJS_def sanitize_dotdot old orEmpty_def new call)
  then show "rename_route demoHost (Some ''docs/report.txt'') (Some ''..'') demoWorld =
     (Send 500 ''Error renaming item'',
      demoWorld\<lparr>calls := [Rename ''/srv/storage/docs/report.txt'' ''/srv/storage/docs'']\<rparr>)"
    by (simp add: rename_route_def respond_def catchIO_def rename_catch_def logCall_def
                  demoWorld_def)
  show "create_folder_route demoHost (Some ''..'') (Some ''docs'') demoWorld =
     (Send 400 ''Invalid folder name'', demoWorld)"
    using create_folder_empty_name [OF sanitize_dotdot] by simp
qed

section \<open>Listings: order and failure\<close>

lemma set_insertBy [simp]: "set (insertBy cmp x ys) = insert x (set ys)"
  by (induction ys) auto

lemma set_sortBy [simp]: "set (sortBy cmp xs) = set xs"
  by (induction xs) (simp_all add: sortBy_def)

lemma sorted_insertBy:
  assumes "consistentComparator cmp"
    and "sorted_wrt (\<lambda>a b. cmp a b \<le> 0) ys"
  shows "sorted_wrt (\<lambda>a b. cmp a b \<le> 0) (insertBy cmp x ys)"
  using assms(2)
proof (induction ys)
  case Nil
  then show ?case by simp
next
  case (Cons y ys)
  from assms(1) have total: "cmp x y \<le> 0 \<or> cmp y x \<le> 0"
    and trans: "\<And>a b c. cmp a b \<le> 0 \<Longrightarrow> cmp b c \<le> 0 \<Longrightarrow> cmp a c \<le> 0"
    unfolding consistentComparator_def by blast+
  show ?case
  proof (cases "cmp x y \<le> 0")
    case True
    with Cons.prems trans show ?thesis
      by auto
  next
    case False
    with total have "cmp y x \<le> 0" by simp
    with False Cons show ?thesis
      by auto
  qed
qed

lemma sorted_sortBy:
  assumes "consistentComparator cmp"
  shows "sorted_wrt (\<lambda>a b. cmp a b \<le> 0) (sortBy cmp xs)"
proof (induction xs)
  case Nil
  then show ?case by (simp add: sortBy_def)
next
  case (Cons x xs)
  then have "sorted_wrt (\<lambda>a b. cmp a b \<le> 0) (insertBy cmp x (sortBy cmp xs))"
    by (rule sorted_insertBy [OF assms])
  then show ?case by (simp add: sortBy_def)
qed

lemma compareItems_consistent:
  assumes "consistentComparator (localeCompare h)"
  shows "consistentComparator (compareItems h)"
proof -
  from assms have total: "\<And>a b. localeCompare h a b \<le> 0 \<or> localeCompare h b a \<le> 0"
    and trans: "\<And>a b c. localeCompare h a b \<le> 0 \<Longrightarrow> localeCompare h b c \<le> 0
                  \<Longrightarrow> localeCompare h a c \<le> 0"
    unfolding consistentComparator_def by blast+
  have "compareItems h a b \<le> 0 \<or> compareItems h b a \<le> 0" for a b
    using total [of "name a" "name b"] by (auto simp: compareItems_def)
  moreover have "compareItems h a c \<le> 0"
    if "compareItems h a b \<le> 0" "compareItems h b c \<le> 0" for a b c
    using that trans [of "name a" "name b" "name c"]
    by (auto simp: compareItems_def split: if_splits)
  ultimately show ?thesis
    unfolding consistentComparator_def by blast
qed

lemma compareItems_order:
  assumes "compareItems h a b \<le> 0"
  shows "\<not> (type a \<noteq> ''directory'' \<and> type b = ''directory'')"
    and "type a = type b \<longrightarrow> localeCompare h (name a) (name b) \<le> 0"
  using assms by (auto simp: compareItems_def split: if_splits)

lemma getItemInfo_files:
  "getItemInfo h itemPath baseName w = (r, w') \<Longrightarrow>
   files w' = files w \<and> calls w' = calls w @ [Stat itemPath]"
  by (auto simp: getItemInfo_def bindIO_def fs_stat_def Let_def split: option.splits)

lemma getItemInfo_None:
  "map_of (files w) itemPath = None \<Longrightarrow>
   getItemInfo h itemPath baseName w =
     (Inl (SystemError ENOENT ''stat'' itemPath None), logCall (Stat itemPath) w)"
  by (simp add: getItemInfo_def bindIO_def fs_stat_def)

lemma getItemInfo_Some:
  "map_of (files w) itemPath = Some n \<Longrightarrow>
   getItemInfo h itemPath baseName w =
     (Inr \<lparr>name = baseName,
           type = (if n = Directory then ''directory'' else ''file''),
           size' = (if n = Directory then None else Some (formatSize (fileSize n))),
           path = posix_relative (cwd h) (STORAGE_DIR h) itemPath\<rparr>,
      logCall (Stat itemPath) w)"
  by (simp add: getItemInfo_def bindIO_def fs_stat_def isDirectory_def)

lemma pushItems_files:
  "pushItems h cur names acc w = (r, w') \<Longrightarrow> files w' = files w"
proof (induction names arbitrary: acc w)
  case Nil
  then show ?case by simp
next
  case (Cons n names)
  obtain r1 w1 where g: "getItemInfo h (posix_join [cur, n]) n w = (r1, w1)"
    by (cases "getItemInfo h (posix_join [cur, n]) n w")
  then have f1: "files w1 = files w"
    using getItemInfo_files by blast
  show ?case
  proof (cases r1)
    case (Inl e)
    with Cons.prems g f1 show ?thesis by simp
  next
    case (Inr info)
    with Cons.prems g have "pushItems h cur names (acc @ [info]) w1 = (r, w')" by simp
    from Cons.IH [OF this] f1 show ?thesis by simp
  qed
qed

lemma pushItems_fails:
  assumes "list_ex (\<lambda>n. map_of (files w) (posix_join [cur, n]) = None) names"
  shows "\<exists>e w'. pushItems h cur names acc w = (Inl e, w')"
  using assms
proof (induction names arbitrary: acc w)
  case Nil
  then show ?case by simp
next
  case (Cons n names)
  obtain r1 w1 where g: "getItemInfo h (posix_join [cur, n]) n w = (r1, w1)"
    by (cases "getItemInfo h (posix_join [cur, n]) n w")
  then have f1: "files w1 = files w"
    using getItemInfo_files by blast
  show ?case
  proof (cases r1)
    case (Inl e)
    with g show ?thesis by simp
  next
    case (Inr info)
    with g have "map_of (files w) (posix_join [cur, n]) \<noteq> None"
      using getItemInfo_None [of w "posix_join [cur, n]" h n] by auto
    with Cons.prems have "list_ex (\<lambda>n. map_of (files w1) (posix_join [cur, n]) = None) names"
      by (simp add: f1)
    from Cons.IH [OF this, of "acc @ [info]"] g Inr show ?thesis by simp
  qed
qed

lemma pushItems_types:
  "pushItems h cur names acc w = (Inr items, w') \<Longrightarrow>
   list_all (\<lambda>i. type i = ''directory'' \<or> type i = ''file'') acc \<Longrightarrow>
   list_all (\<lambda>i. type i = ''directory'' \<or> type i = ''file'') items"
proof (induction names arbitrary: acc w)
  case Nil
  then show ?case by simp
next
  case (Cons n names)
  show ?case
  proof (cases "map_of (files w) (posix_join [cur, n])")
    case None
    with Cons.prems(1) show ?thesis
      by (simp add: getItemInfo_None)
  next
    case (Some nd)
    with Cons.prems(1) obtain info where
      "pushItems h cur names (acc @ [info]) (logCall (Stat (posix_join [cur, n])) w) = (Inr items, w')"
      "type info = ''directory'' \<or> type info = ''file''"
      by (simp add: getItemInfo_Some)
    with Cons.IH [OF this(1)] Cons.prems(2) show ?thesis by simp
  qed
qed

lemma list_try_unfold:
  "list_try h q w =
     (case safePath h [orEmpty q] of
        Inl e \<Rightarrow> (Inl e, w)
      | Inr cur \<Rightarrow>
          (case fs_readdir cur w of
             (Inl e, w1) \<Rightarrow> (Inl e, w1)
           | (Inr names, w1) \<Rightarrow> list_items h cur names w1))"
  by (simp add: list_try_def bindIO_def liftE_def split: sum.splits)

lemma list_items_unfold:
  "list_items h cur names w =
     (case pushItems h cur names [] w of
        (Inl e, w1) \<Rightarrow> (Inl e, w1)
      | (Inr items, w1) \<Rightarrow>
          (Inr (Render (sortBy (compareItems h) items)
                  (posix_relative (cwd h) (STORAGE_DIR h) cur)), w1))"
  by (simp add: list_items_def bindIO_def ret_def)

text \<open>The handler from the point where the directory has been read.\<close>

lemma list_route_after_read:
  assumes "safePath h [orEmpty q] = Inr cur" and "fs_readdir cur w = (Inr names, w1)"
  shows "list_route h q w = respond (catchIO (list_items h cur names) list_catch) w1"
  using assms
  by (simp add: list_route_def list_try_unfold respond_def catchIO_def)

lemma list_route_Render:
  assumes "list_route h q w = (Render items cp, w')"
  shows "\<exists>raw. items = sortBy (compareItems h) raw \<and>
               list_all (\<lambda>i. type i = ''directory'' \<or> type i = ''file'') raw"
proof -
  obtain r w1 where t: "list_try h q w = (r, w1)"
    by (cases "list_try h q w")
  with assms have r: "r = Inr (Render items cp)"
    by (cases r) (simp_all add: list_route_def respond_def catchIO_def list_catch_def)
  from t r obtain cur where cur: "safePath h [orEmpty q] = Inr cur"
    by (cases "safePath h [orEmpty q]") (simp_all add: list_try_unfold)
  obtain rn w2 where rd: "fs_readdir cur w = (rn, w2)"
    by (cases "fs_readdir cur w")
  with t r cur obtain names where names: "rn = Inr names"
    by (cases rn) (simp_all add: list_try_unfold)
  obtain ri w3 where pi: "pushItems h cur names [] w2 = (ri, w3)"
    by (cases "pushItems h cur names [] w2")
  with t r cur rd names obtain raw where raw: "ri = Inr raw"
    by (cases ri) (simp_all add: list_try_unfold list_items_unfold)
  with t r cur rd names pi have "items = sortBy (compareItems h) raw"
    by (simp add: list_try_unfold list_items_unfold)
  moreover from pi raw have "list_all (\<lambda>i. type i = ''directory'' \<or> type i = ''file'') raw"
    using pushItems_types [of h cur names "[]" w2 raw w3] by simp
  ultimately show ?thesis by blast
qed

lemma compareCodeUnits_total: "compareCodeUnits a b \<le> 0 \<or> compareCodeUnits b a \<le> 0"
  by (induction a b rule: compareCodeUnits.induct) auto

lemma compareCodeUnits_trans:
  "compareCodeUnits a b \<le> 0 \<Longrightarrow> compareCodeUnits b c \<le> 0 \<Longrightarrow> compareCodeUnits a c \<le> 0"
proof (induction a arbitrary: b c)
  case Nil
  then show ?case by (cases c) simp_all
next
  case (Cons x a)
  then show ?case
    by (cases b; cases c) (auto split: if_splits)
qed

lemma consistent_demo: "consistentComparator (localeCompare demoHost)"
  unfolding consistentComparator_def demoHost_def
  using compareCodeUnits_total compareCodeUnits_trans by (simp, blast)

lemma readdir_demo:
  "fs_readdir ''/srv/storage'' demoWorld =
     (Inr [''docs'', ''a.txt'', ''archive''], logCall (Readdir ''/srv/storage'') demoWorld)"
  by (simp add: fs_readdir_def demoWorld_def demoFiles_def childName_def dirPrefix_def
                List.map_filter_simps)

lemma rel_demo:
  "posix_relative (cwd demoHost) (STORAGE_DIR demoHost) ''/srv/storage/docs'' = ''docs''"
  "posix_relative (cwd demoHost) (STORAGE_DIR demoHost) ''/srv/storage/a.txt'' = ''a.txt''"
  "posix_relative (cwd demoHost) (STORAGE_DIR demoHost) ''/srv/storage/archive'' = ''archive''"
  "posix_relative (cwd demoHost) (STORAGE_DIR demoHost) ''/srv/storage'' = []"
  by (simp_all add: posix_relative_def demoHost_def posix_resolve_def normalizeString_def
                    pathSegments_def)

lemma join_demo:
  "posix_join [''/srv/storage'', ''docs''] = ''/srv/storage/docs''"
  "posix_join [''/srv/storage'', ''a.txt''] = ''/srv/storage/a.txt''"
  "posix_join [''/srv/storage'', ''archive''] = ''/srv/storage/archive''"
  by (simp_all add: posix_join_def posix_normalize_def normalizeString_def isAbsolute_def)

lemma push_demo:
  "files w = demoFiles \<Longrightarrow> \<exists>w'. pushItems demoHost ''/srv/storage'' [''docs'', ''a.txt'', ''archive''] [] w =
   (Inr [\<lparr>name = ''docs'', type = ''directory'', size' = None, path = ''docs''\<rparr>,
         \<lparr>name = ''a.txt'', type = ''file'', size' = Some ''0.0 B'', path = ''a.txt''\<rparr>,
         \<lparr>name = ''archive'', type = ''directory'', size' = None, path = ''archive''\<rparr>], w')"
  by (simp add: join_demo getItemInfo_Some demoFiles_def rel_demo formatSize_0 fileSize_def)

lemma sort_demo:
  "sortBy (compareItems demoHost)
     [\<lparr>name = ''docs'', type = ''directory'', size' = None, path = ''docs''\<rparr>,
      \<lparr>name = ''a.txt'', type = ''file'', size' = Some ''0.0 B'', path = ''a.txt''\<rparr>,
      \<lparr>name = ''archive'', type = ''directory'', size' = None, path = ''archive''\<rparr>] =
     [\<lparr>name = ''archive'', type = ''directory'', size' = None, path = ''archive''\<rparr>,
      \<lparr>name = ''docs'', type = ''directory'', size' = None, path = ''docs''\<rparr>,
      \<lparr>name = ''a.txt'', type = ''file'', size' = Some ''0.0 B'', path = ''a.txt''\<rparr>]"
  by (simp add: sortBy_def compareItems_def demoHost_def)

lemma list_route_demo:
  "\<exists>w'. list_route demoHost None demoWorld =
     (Render
        [\<lparr>name = ''archive'', type = ''directory'', size' = None, path = ''archive''\<rparr>,
         \<lparr>name = ''docs'', type = ''directory'', size' = None, path = ''docs''\<rparr>,
         \<lparr>name = ''a.txt'', type = ''file'', size' = Some ''0.0 B'', path = ''a.txt''\<rparr>]
        [], w')"
proof -
  have root: "safePath demoHost [orEmpty None] = Inr ''/srv/storage''"
    by (simp add: orEmpty_def path_eval demoHost_def)
  have "files (logCall (Readdir ''/srv/storage'') demoWorld) = demoFiles"
    by (simp add: demoWorld_def)
  from push_demo [OF this] obtain w' where
    "pushItems demoHost ''/srv/storage'' [''docs'', ''a.txt'', ''archive''] []
       (logCall (Readdir ''/srv/storage'') demoWorld) =
     (Inr [\<lparr>name = ''docs'', type = ''directory'', size' = None, path = ''docs''\<rparr>,
           \<lparr>name = ''a.txt'', type = ''file'', size' = Some ''0.0 B'', path = ''a.txt''\<rparr>,
           \<lparr>name = ''archive'', type = ''directory'', size' = None, path = ''archive''\<rparr>], w')"
    by blast
  then have "list_items demoHost ''/srv/storage'' [''docs'', ''a.txt'', ''archive'']
       (logCall (Readdir ''/srv/storage'') demoWorld) =
     (Inr (Render
        [\<lparr>name = ''archive'', type = ''directory'', size' = None, path = ''archive''\<rparr>,
         \<lparr>name = ''docs'', type = ''directory'', size' = None, path = ''docs''\<rparr>,
         \<lparr>name = ''a.txt'', type = ''file'', size' = Some ''0.0 B'', path = ''a.txt''\<rparr>]
        []), w')"
    by (simp add: list_items_unfold sort_demo rel_demo)
  then show ?thesis
    unfolding list_route_after_read [OF root readdir_demo]
    by (simp add: respond_def catchIO_def)
qed

text \<open>
  Claim C8. When the host's collation is a consistent comparison, every listing that
  is rendered is ordered: no entry that is not a directory comes before a directory,
  and of two entries of the same kind the earlier one does not come after the later one
  under \<open>localeCompare\<close>. Every entry is a directory or a file.
\<close>

theorem listing_directories_first_then_by_name:
  assumes "consistentComparator (localeCompare h)"
    and "list_route h q w = (Render items cp, w')"
  shows "sorted_wrt (\<lambda>a b. \<not> (type a \<noteq> ''directory'' \<and> type b = ''directory'') \<and>
                        (type a = type b \<longrightarrow> localeCompare h (name a) (name b) \<le> 0)) items \<and>
         list_all (\<lambda>i. type i = ''directory'' \<or> type i = ''file'') items"
proof -
  from list_route_Render [OF assms(2)] obtain raw where
    raw: "items = sortBy (compareItems h) raw"
      "list_all (\<lambda>i. type i = ''directory'' \<or> type i = ''file'') raw"
    by blast
  have "sorted_wrt (\<lambda>a b. compareItems h a b \<le> 0) items"
    unfolding raw(1) by (rule sorted_sortBy [OF compareItems_consistent [OF assms(1)]])
  then have "sorted_wrt (\<lambda>a b. \<not> (type a \<noteq> ''directory'' \<and> type b = ''directory'') \<and>
                        (type a = type b \<longrightarrow> localeCompare h (name a) (name b) \<le> 0)) items"
    by (rule sorted_wrt_mono_rel [rotated]) (use compareItems_order in blast)
  moreover have "list_all (\<lambda>i. type i = ''directory'' \<or> type i = ''file'') items"
    using raw by (simp add: list_all_iff)
  ultimately show ?thesis by simp
qed

theorem listing_directories_first_then_by_name_witness:
  "consistentComparator (localeCompare demoHost) \<and>
   (\<exists>items cp w'. list_route demoHost None demoWorld = (Render items cp, w') \<and>
      map name items = [''archive'', ''docs'', ''a.txt''] \<and>
      map type items = [''directory'', ''directory'', ''file''] \<and>
      sorted_wrt (\<lambda>a b. \<not> (type a \<noteq> ''directory'' \<and> type b = ''directory'') \<and>
                     (type a = type b \<longrightarrow> localeCompare demoHost (name a) (name b) \<le> 0)) items)"
proof -
  from list_route_demo obtain w' where r: "list_route demoHost None demoWorld =
     (Render
        [\<lparr>name = ''archive'', type = ''directory'', size' = None, path = ''archive''\<rparr>,
         \<lparr>name = ''docs'', type = ''directory'', size' = None, path = ''docs''\<rparr>,
         \<lparr>name = ''a.txt'', type = ''file'', size' = Some ''0.0 B'', path = ''a.txt''\<rparr>]
        [], w')"
    by blast
  from listing_directories_first_then_by_name [OF consistent_demo r]
  have "sorted_wrt (\<lambda>a b. \<not> (type a \<noteq> ''directory'' \<and> type b = ''directory'') \<and>
                     (type a = type b \<longrightarrow> localeCompare demoHost (name a) (name b) \<le> 0))
        [\<lparr>name = ''archive'', type = ''directory'', size' = None, path = ''archive''\<rparr>,
         \<lparr>name = ''docs'', type = ''directory'', size' = None, path = ''docs''\<rparr>,
         \<lparr>name = ''a.txt'', type = ''file'', size' = Some ''0.0 B'', path = ''a.txt''\<rparr>]"
    by (rule conjunct1)
  with r consistent_demo show ?thesis
    by (intro conjI exI) (assumption, rule r, simp_all)
qed

text \<open>
  Claim C10. Once the directory has been read, the handler stats every name in turn
  (\<open>list_route_after_read\<close>: the rest of the handler is \<open>list_items\<close> under the same
  \<open>catch\<close>). If the entry of one of the names is missing at that point (it was removed
  after the directory was read, say), the stat throws, the loop is abandoned, and the
  handler answers \<open>500 Error reading directory\<close>: no list of items is rendered,
  whichever of the names it is. The files are as they were.
\<close>

theorem listing_fails_as_a_whole:
  assumes "list_ex (\<lambda>n. map_of (files w1) (posix_join [currentPath, n]) = None) names"
  shows "\<exists>w2. respond (catchIO (list_items h currentPath names) list_catch) w1 =
                (Send 500 ''Error reading directory'', w2) \<and> files w2 = files w1"
proof -
  from pushItems_fails [OF assms, of h "[]"] obtain e w2 where
    p: "pushItems h currentPath names [] w1 = (Inl e, w2)"
    by blast
  then have f: "files w2 = files w1"
    by (rule pushItems_files)
  from p have "respond (catchIO (list_items h currentPath names) list_catch) w1 =
      (Send 500 ''Error reading directory'', w2)"
    by (simp add: respond_def catchIO_def list_items_unfold list_catch_def)
  with f show ?thesis by blast
qed

theorem listing_fails_as_a_whole_witness:
  "list_ex (\<lambda>n. map_of (files demoWorld) (posix_join [''/srv/storage'', n]) = None)
     [''docs'', ''gone.txt'', ''archive''] \<and>
   (\<exists>w2. respond (catchIO (list_items demoHost ''/srv/storage'' [''docs'', ''gone.txt'', ''archive''])
                   list_catch) demoWorld =
           (Send 500 ''Error reading directory'', w2) \<and> files w2 = files demoWorld)"
proof -
  have "posix_join [''/srv/storage'', ''gone.txt''] = ''/srv/storage/gone.txt''"
    by (simp add: posix_join_def posix_normalize_def normalizeString_def isAbsolute_def)
  then have gone: "list_ex (\<lambda>n. map_of (files demoWorld) (posix_join [''/srv/storage'', n]) = None)
     [''docs'', ''gone.txt'', ''archive'']"
    by (simp add: demoWorld_def demoFiles_def)
  from listing_fails_as_a_whole [OF gone, of demoHost] gone show ?thesis
    by blast
qed

section \<open>Sanitized names and \<open>POST /create-folder\<close>\<close>

lemma set_truncateBytes: "set (truncateBytes s n) \<subseteq> set s"
  by (induction s arbitrary: n) auto

lemma set_stripTrailing: "set (stripTrailing s) \<subseteq> set s"
  using set_dropWhileD [of _ "\<lambda>c. c = CHR ''.'' \<or> c = CHR '' ''" "rev s"]
  by (auto simp: stripTrailing_def)

lemma sanitize_no_slash: "CHR ''/'' \<notin> set (sanitize s)"
proof -
  let ?s2 = "filter (\<lambda>c. \<not> controlChar c) (filter (\<lambda>c. \<not> illegalChar c) s)"
  have "illegalChar CHR ''/''"
    by (simp add: illegalChar_def)
  then have no: "CHR ''/'' \<notin> set ?s2"
    by auto
  have "set (sanitize s) \<subseteq> set ?s2"
    using set_truncateBytes [of "stripTrailing ?s2" 255] set_truncateBytes [of "stripTrailing []" 255]
      set_stripTrailing [of ?s2]
    by (auto simp: sanitize_def Let_def stripTrailing_def)
  with no show ?thesis by blast
qed

lemma stripTrailing_last:
  "stripTrailing s = [] \<or> (last (stripTrailing s) \<noteq> CHR ''.'' \<and> last (stripTrailing s) \<noteq> CHR '' '')"
proof (cases "dropWhile (\<lambda>c. c = CHR ''.'' \<or> c = CHR '' '') (rev s)")
  case Nil
  then show ?thesis by (simp add: stripTrailing_def)
next
  case (Cons c cs)
  then have "\<not> (c = CHR ''.'' \<or> c = CHR '' '')"
    using hd_dropWhile [of "\<lambda>c. c = CHR ''.'' \<or> c = CHR '' ''" "rev s"] by simp
  with Cons show ?thesis by (simp add: stripTrailing_def)
qed

lemma utf8Length_le: "utf8Length c \<le> 2"
  by (simp add: utf8Length_def)

lemma truncate_Nil: "truncateBytes t n = [] \<Longrightarrow> 2 \<le> n \<Longrightarrow> t = []"
  using utf8Length_le by (cases t) (auto split: if_splits intro: order_trans)

lemma truncate_one: "truncateBytes t n = [c] \<Longrightarrow> 4 \<le> n \<Longrightarrow> t = [c]"
proof (cases t)
  case Nil
  then show "truncateBytes t n = [c] \<Longrightarrow> t = [c]" by simp
next
  case (Cons a t')
  assume "truncateBytes t n = [c]" "4 \<le> n"
  with Cons utf8Length_le [of a] have "a = c" "truncateBytes t' (n - utf8Length a) = []"
    by (auto split: if_splits)
  moreover from \<open>4 \<le> n\<close> utf8Length_le [of a] have "2 \<le> n - utf8Length a" by simp
  ultimately show "t = [c]"
    using Cons truncate_Nil by blast
qed

lemma truncate_two: "truncateBytes t n = [c, d] \<Longrightarrow> 6 \<le> n \<Longrightarrow> t = [c, d]"
proof (cases t)
  case Nil
  then show "truncateBytes t n = [c, d] \<Longrightarrow> t = [c, d]" by simp
next
  case (Cons a t')
  assume "truncateBytes t n = [c, d]" "6 \<le> n"
  with Cons utf8Length_le [of a] have "a = c" "truncateBytes t' (n - utf8Length a) = [d]"
    by (auto split: if_splits)
  moreover from \<open>6 \<le> n\<close> utf8Length_le [of a] have "4 \<le> n - utf8Length a" by simp
  ultimately show "t = [c, d]"
    using Cons truncate_one by blast
qed

lemma sanitize_not_dots: "sanitize s \<noteq> ''.''" "sanitize s \<noteq> ''..''"
proof -
  obtain t where t: "sanitize s = truncateBytes (stripTrailing t) 255"
    by (simp add: sanitize_def Let_def)
  show "sanitize s \<noteq> ''.''"
  proof
    assume "sanitize s = ''.''"
    with t have "stripTrailing t = ''.''"
      using truncate_one [of "stripTrailing t" 255 "CHR ''.''"] by simp
    with stripTrailing_last [of t] show False by simp
  qed
  show "sanitize s \<noteq> ''..''"
  proof
    assume "sanitize s = ''..''"
    with t have "stripTrailing t = ''..''"
      using truncate_two [of "stripTrailing t" 255 "CHR ''.''" "CHR ''.''"] by simp
    with stripTrailing_last [of t] show False by simp
  qed
qed

lemma sanitize_segment:
  assumes "sanitize s \<noteq> []"
  shows "cleanSeg (sanitize s)" and "plainSeg (sanitize s)"
  using assms sanitize_no_slash [of s] sanitize_not_dots [of s]
  by (simp_all add: cleanSeg_def plainSeg_def)

lemma sanitize_Nil [simp]: "sanitize [] = []"
  by (simp add: sanitize_eval)

lemma sanitize_etc: "sanitize ''../../etc'' = ''....etc''"
  by (simp add: sanitize_eval)

lemma create_folder_try_resolved:
  assumes "sanitize nm \<noteq> []" and "safePath h [orEmpty parent, sanitize nm] = Inr fp"
  shows "create_folder_try h (Some nm) parent w =
     (if map_of (files w) fp \<noteq> None
      then (Inr (Send 409 ''Folder already exists''), logCall (ExistsSync fp) w)
      else (case mkdirSegs True (files w) (rev (pathSegments fp)) of
              Inl e \<Rightarrow> (Inl (SystemError e ''mkdir'' fp None),
                        logCall (Mkdir fp) (logCall (ExistsSync fp) w))
            | Inr fs' \<Rightarrow> (Inr (Send 200 ''Folder created successfully''),
                         logCall (Mkdir fp) ((logCall (ExistsSync fp) w)\<lparr>files := fs'\<rparr>))))"
proof -
  from assms(1) have nm: "nm \<noteq> []" by auto
  have "create_folder_try h (Some nm) parent w =
      bindIO (existsSync fp) (\<lambda>found.
          if found then ret (Send 409 ''Folder already exists'')
          else
            bindIO (fs_mkdir_recursive fp) (\<lambda>u.
            ret (Send 200 ''Folder created successfully''))) w"
    using nm assms by (simp add: create_folder_try_def falsy_def sanitizeJS_def)
  also have "\<dots> = (if map_of (files w) fp \<noteq> None
      then (Inr (Send 409 ''Folder already exists''), logCall (ExistsSync fp) w)
      else (case mkdirSegs True (files w) (rev (pathSegments fp)) of
              Inl e \<Rightarrow> (Inl (SystemError e ''mkdir'' fp None),
                        logCall (Mkdir fp) (logCall (ExistsSync fp) w))
            | Inr fs' \<Rightarrow> (Inr (Send 200 ''Folder created successfully''),
                         logCall (Mkdir fp) ((logCall (ExistsSync fp) w)\<lparr>files := fs'\<rparr>))))"
    by (simp add: bindIO_def existsSync_def fs_mkdir_recursive_def split: sum.splits)
  finally show ?thesis .
qed

lemma create_folder_route_resolved:
  assumes "sanitize nm \<noteq> []" and "safePath h [orEmpty parent, sanitize nm] = Inr fp"
  shows "map_of (files w) fp \<noteq> None \<Longrightarrow>
           create_folder_route h (Some nm) parent w =
             (Send 409 ''Folder already exists'', logCall (ExistsSync fp) w)"
    and "map_of (files w) fp = None \<Longrightarrow>
         mkdirSegs True (files w) (rev (pathSegments fp)) = Inr fs' \<Longrightarrow>
           create_folder_route h (Some nm) parent w =
             (Send 200 ''Folder created successfully'',
              logCall (Mkdir fp) ((logCall (ExistsSync fp) w)\<lparr>files := fs'\<rparr>))"
    and "calls (snd (create_folder_route h (Some nm) parent w)) = calls w @ [ExistsSync fp] \<or>
         calls (snd (create_folder_route h (Some nm) parent w)) =
           calls w @ [ExistsSync fp, Mkdir fp]"
proof -
  note body = create_folder_try_resolved [OF assms, of w]
  show "create_folder_route h (Some nm) parent w =
      (Send 409 ''Folder already exists'', logCall (ExistsSync fp) w)"
    if "map_of (files w) fp \<noteq> None"
    using that by (simp add: create_folder_route_def respond_def catchIO_def body)
  show "create_folder_route h (Some nm) parent w =
      (Send 200 ''Folder created successfully'',
       logCall (Mkdir fp) ((logCall (ExistsSync fp) w)\<lparr>files := fs'\<rparr>))"
    if "map_of (files w) fp = None" "mkdirSegs True (files w) (rev (pathSegments fp)) = Inr fs'"
    using that by (simp add: create_folder_route_def respond_def catchIO_def body)
  show "calls (snd (create_folder_route h (Some nm) parent w)) = calls w @ [ExistsSync fp] \<or>
        calls (snd (create_folder_route h (Some nm) parent w)) =
          calls w @ [ExistsSync fp, Mkdir fp]"
    by (cases "mkdirSegs True (files w) (rev (pathSegments fp))")
       (simp_all add: create_folder_route_def respond_def catchIO_def body
                      create_folder_catch_def)
qed

lemma mkdirSegs_existing_rev:
  assumes "map_of fs (CHR ''/'' # joinSlash (rev rsegs)) = Some Directory"
  shows "mkdirSegs t fs rsegs = Inr fs"
proof (cases rsegs)
  case Nil
  with assms show ?thesis by simp
next
  case (Cons s rest)
  with assms have "map_of fs (CHR ''/'' # joinSlash (rev (s # rest))) = Some Directory"
    by simp
  then show ?thesis
    unfolding Cons mkdirSegs.simps Let_def by simp
qed

lemma mkdirSegs_existing:
  assumes "map_of fs (CHR ''/'' # joinSlash segs) = Some Directory"
  shows "mkdirSegs t fs (rev segs) = Inr fs"
  by (rule mkdirSegs_existing_rev) (simp add: assms)

lemma mkdirSegs_child:
  assumes "list_all cleanSeg segs" and "cleanSeg x"
    and "map_of fs (CHR ''/'' # joinSlash segs) = Some Directory"
    and "map_of fs (CHR ''/'' # joinSlash (segs @ [x])) = None"
  shows "mkdirSegs True fs (rev (pathSegments (CHR ''/'' # joinSlash (segs @ [x])))) =
           Inr (fs @ [(CHR ''/'' # joinSlash (segs @ [x]), Directory)])"
proof -
  from assms(1,2) have "list_all cleanSeg (segs @ [x])" by simp
  then have "pathSegments (CHR ''/'' # joinSlash (segs @ [x])) = segs @ [x]"
    by (rule pathSegments_root_joinSlash)
  moreover have "mkdirSegs True fs (x # rev segs) =
      Inr (fs @ [(CHR ''/'' # joinSlash (segs @ [x]), Directory)])"
    using assms(4) mkdirSegs_existing [OF assms(3), of False] by (simp add: Let_def)
  ultimately show ?thesis by simp
qed

text \<open>
  In an existing parent directory, under a name that is not taken, the handler creates
  one directory: the child of the sanitized name.
\<close>

lemma create_folder_creates_child:
  assumes "isAbsolute (STORAGE_DIR h)" and "sanitize nm \<noteq> []"
    and "safePath h [orEmpty parent] = Inr pp"
    and "map_of (files w) pp = Some Directory"
    and "map_of (files w) (dirPrefix pp @ sanitize nm) = None"
  shows "create_folder_route h (Some nm) parent w =
           (Send 200 ''Folder created successfully'',
            \<lparr>files = files w @ [(dirPrefix pp @ sanitize nm, Directory)],
              calls = calls w @ [ExistsSync (dirPrefix pp @ sanitize nm),
                                 Mkdir (dirPrefix pp @ sanitize nm)]\<rparr>)"
proof -
  let ?x = "sanitize nm"
  let ?S = "belowSegs h (posix_join [orEmpty parent])"
  note seg = sanitize_segment [OF assms(2)]
  have fp: "safePath h [orEmpty parent, ?x] = Inr (dirPrefix pp @ ?x)"
    by (rule safePath_child [OF assms(1) seg assms(3)])
  from assms(3) have "resolvedPath h [orEmpty parent] = pp"
    by (auto simp: safePath_def split: if_splits)
  then have pp: "pp = CHR ''/'' # joinSlash ?S"
    by (simp add: resolvedPath_belowSegs [OF assms(1)])
  have child: "dirPrefix pp @ ?x = CHR ''/'' # joinSlash (?S @ [?x])"
    unfolding pp by (rule root_joinSlash_snoc [OF belowSegs_clean, symmetric])
  have "mkdirSegs True (files w) (rev (pathSegments (dirPrefix pp @ ?x))) =
      Inr (files w @ [(dirPrefix pp @ ?x, Directory)])"
    unfolding child
    by (rule mkdirSegs_child [OF belowSegs_clean seg(1)])
       (use assms(4,5) in \<open>simp_all add: pp [symmetric] child [symmetric]\<close>)
  from create_folder_route_resolved(2) [OF assms(2) fp assms(5) this]
  show ?thesis
    by (simp add: logCall_def)
qed

lemma isAbsolute_demo: "isAbsolute (STORAGE_DIR demoHost)"
  by (simp add: demoHost_def isAbsolute_def)

lemma safePath_demo_root: "safePath demoHost [orEmpty None] = Inr ''/srv/storage''"
  by (simp add: orEmpty_def path_eval demoHost_def)

text \<open>
  The example of claim C5 fails: \<open>sanitize\<close> deletes the separators of \<open>../../etc\<close>
  and leaves \<open>....etc\<close>, which is not empty, so the handler does not answer "Invalid
  folder name": it creates the directory \<open>....etc\<close> in the storage root.
\<close>

theorem create_folder_dots_etc_is_created:
  "sanitize ''../../etc'' = ''....etc'' \<and>
   create_folder_route demoHost (Some ''../../etc'') None demoWorld =
     (Send 200 ''Folder created successfully'',
      \<lparr>files = demoFiles @ [(''/srv/storage/....etc'', Directory)],
        calls = [ExistsSync ''/srv/storage/....etc'', Mkdir ''/srv/storage/....etc'']\<rparr>)"
proof -
  have "map_of (files demoWorld) ''/srv/storage'' = Some Directory"
    and "map_of (files demoWorld) (dirPrefix ''/srv/storage'' @ sanitize ''../../etc'') = None"
    by (simp_all add: sanitize_etc demoWorld_def demoFiles_def dirPrefix_def)
  from create_folder_creates_child [OF isAbsolute_demo _ safePath_demo_root this]
  show ?thesis
    by (simp add: sanitize_etc dirPrefix_def demoWorld_def)
qed

text \<open>
  Claim C5, amended. \<open>sanitize\<close> removes the separators (and the other unsafe
  characters) of the name instead of rejecting it: the sanitized name holds no \<open>/\<close> and
  is never \<open>.\<close> or \<open>..\<close>. When it is empty, the handler answers 400 and the world is
  unchanged. When it is not, and the storage root is absolute and the parent resolves,
  the only path the handler checks and creates is the entry of the resolved parent
  named by the sanitized name, one segment below the parent: the name cannot lead out
  of the parent, and the path lies inside the root whenever the resolved parent does.
  In an existing parent with that name free, exactly that directory is added to the
  files. For \<open>../../etc\<close> the sanitized name is \<open>....etc\<close>.
\<close>

theorem create_folder_sanitizes_name:
  "CHR ''/'' \<notin> set (sanitize nm) \<and> sanitize nm \<noteq> ''.'' \<and> sanitize nm \<noteq> ''..'' \<and>
   sanitize ''../../etc'' = ''....etc'' \<and>
   (sanitize nm = [] \<longrightarrow>
      create_folder_route h (Some nm) parent w =
        (Send 400 (if nm = [] then ''Folder name is required'' else ''Invalid folder name''), w)) \<and>
   (isAbsolute (STORAGE_DIR h) \<and> sanitize nm \<noteq> [] \<and> safePath h [orEmpty parent] = Inr pp \<longrightarrow>
      safePath h [orEmpty parent, sanitize nm] = Inr (dirPrefix pp @ sanitize nm) \<and>
      pathSegments (dirPrefix pp @ sanitize nm) = pathSegments pp @ [sanitize nm] \<and>
      (insideRoot (STORAGE_DIR h) pp \<longrightarrow>
         insideRoot (STORAGE_DIR h) (dirPrefix pp @ sanitize nm)) \<and>
      (calls (snd (create_folder_route h (Some nm) parent w)) =
         calls w @ [ExistsSync (dirPrefix pp @ sanitize nm)] \<or>
       calls (snd (create_folder_route h (Some nm) parent w)) =
         calls w @ [ExistsSync (dirPrefix pp @ sanitize nm), Mkdir (dirPrefix pp @ sanitize nm)]) \<and>
      (map_of (files w) pp = Some Directory \<and>
       map_of (files w) (dirPrefix pp @ sanitize nm) = None \<longrightarrow>
         create_folder_route h (Some nm) parent w =
           (Send 200 ''Folder created successfully'',
            \<lparr>files = files w @ [(dirPrefix pp @ sanitize nm, Directory)],
              calls = calls w @ [ExistsSync (dirPrefix pp @ sanitize nm),
                                 Mkdir (dirPrefix pp @ sanitize nm)]\<rparr>)))"
proof (intro conjI impI)
  show "CHR ''/'' \<notin> set (sanitize nm)" by (rule sanitize_no_slash)
  show "sanitize nm \<noteq> ''.''" by (rule sanitize_not_dots)
  show "sanitize nm \<noteq> ''..''" by (rule sanitize_not_dots)
  show "sanitize ''../../etc'' = ''....etc''" by (rule sanitize_etc)
next
  assume "sanitize nm = []"
  then show "create_folder_route h (Some nm) parent w =
        (Send 400 (if nm = [] then ''Folder name is required'' else ''Invalid folder name''), w)"
    by (rule create_folder_empty_name)
next
  assume a: "isAbsolute (STORAGE_DIR h) \<and> sanitize nm \<noteq> [] \<and> safePath h [orEmpty parent] = Inr pp"
  then have ne: "sanitize nm \<noteq> []" by simp
  note seg = sanitize_segment [OF ne]
  from a show fp: "safePath h [orEmpty parent, sanitize nm] = Inr (dirPrefix pp @ sanitize nm)"
    by (intro safePath_child sanitize_segment) simp_all
  show "pathSegments (dirPrefix pp @ sanitize nm) = pathSegments pp @ [sanitize nm]"
    by (rule pathSegments_child [OF seg(1)])
  show "calls (snd (create_folder_route h (Some nm) parent w)) =
         calls w @ [ExistsSync (dirPrefix pp @ sanitize nm)] \<or>
       calls (snd (create_folder_route h (Some nm) parent w)) =
         calls w @ [ExistsSync (dirPrefix pp @ sanitize nm), Mkdir (dirPrefix pp @ sanitize nm)]"
    by (rule create_folder_route_resolved(3) [OF ne fp])
  {
    assume "insideRoot (STORAGE_DIR h) pp"
    then show "insideRoot (STORAGE_DIR h) (dirPrefix pp @ sanitize nm)"
      by (rule insideRoot_child [OF seg(1)])
  }
  assume "map_of (files w) pp = Some Directory \<and>
       map_of (files w) (dirPrefix pp @ sanitize nm) = None"
  with a show "create_folder_route h (Some nm) parent w =
           (Send 200 ''Folder created successfully'',
            \<lparr>files = files w @ [(dirPrefix pp @ sanitize nm, Directory)],
              calls = calls w @ [ExistsSync (dirPrefix pp @ sanitize nm),
                                 Mkdir (dirPrefix pp @ sanitize nm)]\<rparr>)"
    by (intro create_folder_creates_child) simp_all
qed

theorem create_folder_sanitizes_name_witness:
  "sanitize ''..'' = [] \<and>
   create_folder_route demoHost (Some ''..'') (Some ''docs'') demoWorld =
     (Send 400 ''Invalid folder name'', demoWorld) \<and>
   sanitize ''a/b'' = ''ab'' \<and>
   safePath demoHost [''docs'', ''ab''] = Inr ''/srv/storage/docs/ab'' \<and>
   insideRoot (STORAGE_DIR demoHost) ''/srv/storage/docs'' \<and>
   insideRoot (STORAGE_DIR demoHost) ''/srv/storage/docs/ab'' \<and>
   create_folder_route demoHost (Some ''a/b'') (Some ''docs'') demoWorld =
     (Send 200 ''Folder created successfully'',
      \<lparr>files = demoFiles @ [(''/srv/storage/docs/ab'', Directory)],
        calls = [ExistsSync ''/srv/storage/docs/ab'', Mkdir ''/srv/storage/docs/ab'']\<rparr>)"
proof -
  have ab: "sanitize ''a/b'' = ''ab''"
    by (simp add: sanitize_eval)
  have docs: "safePath demoHost [orEmpty (Some ''docs'')] = Inr ''/srv/storage/docs''"
    by (simp add: orEmpty_def path_eval demoHost_def)
  have m: "map_of (files demoWorld) ''/srv/storage/docs'' = Some Directory"
    "map_of (files demoWorld) (dirPrefix ''/srv/storage/docs'' @ sanitize ''a/b'') = None"
    by (simp_all add: ab demoWorld_def demoFiles_def dirPrefix_def)
  have inside: "insideRoot (STORAGE_DIR demoHost) ''/srv/storage/docs''"
    by (simp add: insideRoot_def pathSegments_def demoHost_def)
  note one = create_folder_sanitizes_name
    [where nm = "''..''" and h = demoHost and parent = "Some ''docs''" and w = demoWorld]
  note two = create_folder_sanitizes_name
    [where nm = "''a/b''" and h = demoHost and parent = "Some ''docs''" and w = demoWorld
       and pp = "''/srv/storage/docs''"]
  have "create_folder_route demoHost (Some ''..'') (Some ''docs'') demoWorld =
     (Send 400 ''Invalid folder name'', demoWorld)"
    using one [THEN conjunct2, THEN conjunct2, THEN conjunct2, THEN conjunct2, THEN conjunct1]
      sanitize_dotdot
    by simp
  moreover have "safePath demoHost [orEmpty (Some ''docs''), sanitize ''a/b''] =
        Inr (dirPrefix ''/srv/storage/docs'' @ sanitize ''a/b'') \<and>
      insideRoot (STORAGE_DIR demoHost) (dirPrefix ''/srv/storage/docs'' @ sanitize ''a/b'') \<and>
      create_folder_route demoHost (Some ''a/b'') (Some ''docs'') demoWorld =
           (Send 200 ''Folder created successfully'',
            \<lparr>files = files demoWorld @ [(dirPrefix ''/srv/storage/docs'' @ sanitize ''a/b'', Directory)],
              calls = calls demoWorld @ [ExistsSync (dirPrefix ''/srv/storage/docs'' @ sanitize ''a/b''),
                                 Mkdir (dirPrefix ''/srv/storage/docs'' @ sanitize ''a/b'')]\<rparr>)"
    using two [THEN conjunct2, THEN conjunct2, THEN conjunct2, THEN conjunct2, THEN conjunct2]
      isAbsolute_demo docs m inside
    by (simp add: ab)
  ultimately show ?thesis
    using sanitize_dotdot ab inside
    by (simp add: orEmpty_def dirPrefix_def demoWorld_def)
qed
section \<open>Create, list, delete, list\<close>

lemma in_set_map_filter:
  "y \<in> set (List.map_filter f xs) \<longleftrightarrow> (\<exists>x \<in> set xs. f x = Some y)"
  by (induction xs) (auto split: option.splits)

subsection \<open>A listing of a well-formed table succeeds\<close>

lemma fs_readdir_Directory:
  "map_of (files w) cur = Some Directory \<Longrightarrow>
   fs_readdir cur w =
     (Inr (List.map_filter (\<lambda>(q, n). childName cur q) (files w)), logCall (Readdir cur) w)"
  by (simp add: fs_readdir_def)

lemma child_stat:
  assumes "wellFormed fs" and "canonicalPath cur"
    and "n \<in> set (List.map_filter (\<lambda>(q, nd). childName cur q) fs)"
  shows "posix_join [cur, n] = dirPrefix cur @ n" and "map_of fs (dirPrefix cur @ n) \<noteq> None"
proof -
  from assms(3) obtain q nd where q: "(q, nd) \<in> set fs" "childName cur q = Some n"
    by (auto simp: in_set_map_filter)
  from assms(1) q(1) have "canonicalPath q"
    by (auto simp: wellFormed_def list_all_iff)
  from child_of_canonical [OF this q(2)]
  show "posix_join [cur, n] = dirPrefix cur @ n"
    by (rule posix_join_child [OF assms(2)])
  from q(2) have "q = dirPrefix cur @ n"
    by (simp add: childName_Some)
  with q(1) show "map_of fs (dirPrefix cur @ n) \<noteq> None"
    by (auto simp: map_of_eq_None_iff intro: rev_image_eqI)
qed

lemma pushItems_succeeds:
  assumes "list_all (\<lambda>n. map_of (files w) (posix_join [cur, n]) \<noteq> None) names"
  shows "\<exists>items w'. pushItems h cur names acc w = (Inr (acc @ items), w') \<and>
           list_all2 (\<lambda>n i. name i = n \<and>
               (type i = ''directory'') = (map_of (files w) (posix_join [cur, n]) = Some Directory))
             names items"
  using assms
proof (induction names arbitrary: acc w)
  case Nil
  then show ?case by simp
next
  case (Cons n names)
  from Cons.prems obtain nd where nd: "map_of (files w) (posix_join [cur, n]) = Some nd"
    by auto
  let ?w1 = "logCall (Stat (posix_join [cur, n])) w"
  let ?info = "\<lparr>name = n,
           type = (if nd = Directory then ''directory'' else ''file''),
           size' = (if nd = Directory then None else Some (formatSize (fileSize nd))),
           path = posix_relative (cwd h) (STORAGE_DIR h) (posix_join [cur, n])\<rparr>"
  from Cons.prems have "list_all (\<lambda>n. map_of (files ?w1) (posix_join [cur, n]) \<noteq> None) names"
    by simp
  from Cons.IH [OF this, of "acc @ [?info]"] obtain items w' where
    rest: "pushItems h cur names (acc @ [?info]) ?w1 = (Inr (acc @ [?info] @ items), w')"
      "list_all2 (\<lambda>n i. name i = n \<and>
          (type i = ''directory'') = (map_of (files w) (posix_join [cur, n]) = Some Directory))
        names items"
    by auto
  have "pushItems h cur (n # names) acc w = (Inr (acc @ (?info # items)), w')"
    using rest(1) by (simp add: getItemInfo_Some [OF nd])
  moreover have "list_all2 (\<lambda>n i. name i = n \<and>
          (type i = ''directory'') = (map_of (files w) (posix_join [cur, n]) = Some Directory))
        (n # names) (?info # items)"
    using rest(2) nd by simp
  ultimately show ?case by blast
qed

lemma list_all2_names:
  assumes "list_all2 (\<lambda>n i. name i = n \<and> P n i) names items"
  shows "map name items = names"
  using assms by (induction names items rule: list_all2_induct) simp_all

lemma list_all2_item:
  assumes "list_all2 (\<lambda>n i. name i = n \<and> P n i) names items" and "x \<in> set names"
  shows "\<exists>i \<in> set items. name i = x \<and> P x i"
  using assms by (induction names items rule: list_all2_induct) auto

text \<open>
  Listing an existing directory of a well-formed table renders one item for every
  child, and an item is a directory exactly when the child is.
\<close>

lemma list_route_succeeds:
  assumes "isAbsolute (STORAGE_DIR h)" and "wellFormed (files w)"
    and "safePath h [orEmpty q] = Inr cur" and "map_of (files w) cur = Some Directory"
  shows "\<exists>items cp w'. list_route h q w = (Render items cp, w') \<and> files w' = files w \<and>
           name ` set items = set (List.map_filter (\<lambda>(q, n). childName cur q) (files w)) \<and>
           (\<forall>x \<in> set (List.map_filter (\<lambda>(q, n). childName cur q) (files w)).
              \<exists>i \<in> set items. name i = x \<and>
                (type i = ''directory'') = (map_of (files w) (dirPrefix cur @ x) = Some Directory))"
proof -
  let ?names = "List.map_filter (\<lambda>(q, n). childName cur q) (files w)"
  let ?w1 = "logCall (Readdir cur) w"
  have canon: "canonicalPath cur"
    by (rule safePath_canonical [OF assms(1,3)])
  have join: "posix_join [cur, n] = dirPrefix cur @ n" if "n \<in> set ?names" for n
    using child_stat(1) [OF assms(2) canon that] .
  have "list_all (\<lambda>n. map_of (files ?w1) (posix_join [cur, n]) \<noteq> None) ?names"
    using child_stat(2) [OF assms(2) canon] join by (simp add: list_all_iff)
  from pushItems_succeeds [OF this, of h "[]"] obtain raw w' where
    raw: "pushItems h cur ?names [] ?w1 = (Inr raw, w')"
      "list_all2 (\<lambda>n i. name i = n \<and>
          (type i = ''directory'') = (map_of (files ?w1) (posix_join [cur, n]) = Some Directory))
        ?names raw"
    by auto
  let ?items = "sortBy (compareItems h) raw"
  have route: "list_route h q w =
      (Render ?items (posix_relative (cwd h) (STORAGE_DIR h) cur), w')"
    unfolding list_route_after_read [OF assms(3) fs_readdir_Directory [OF assms(4)]]
    by (simp add: respond_def catchIO_def list_items_unfold raw(1))
  have "files w' = files ?w1"
    using raw(1) by (rule pushItems_files)
  then have files: "files w' = files w" by simp
  have names: "name ` set ?items = set ?names"
    using list_all2_names [OF raw(2)] by (metis set_map set_sortBy)
  have each: "\<exists>i \<in> set ?items. name i = x \<and>
      (type i = ''directory'') = (map_of (files w) (dirPrefix cur @ x) = Some Directory)"
    if "x \<in> set ?names" for x
    using list_all2_item [OF raw(2) that] join [OF that] by simp
  from route files names each show ?thesis by blast
qed

subsection \<open>Deleting a directory\<close>

lemma delete_directory:
  assumes "safePath h [d] = Inr p" and "map_of (files w) p = Some Directory"
  shows "delete_route h (Some d) w =
           (Send 200 ''Item deleted successfully'',
            \<lparr>files = filter (\<lambda>(q, n). \<not> isUnder p q) (files w),
              calls = calls w @ [Stat p, Rm p]\<rparr>)"
proof -
  let ?w1 = "logCall (Stat p) w"
  have stat: "bindIO (fs_stat p) f w = f Directory ?w1" for f :: "node \<Rightarrow> response io"
    by (rule bindIO_Inr) (simp add: fs_stat_Some assms(2))
  have rm: "fs_rm_recursive p ?w1 =
      (Inr (), logCall (Rm p) (?w1\<lparr>files := filter (\<lambda>(q, n). \<not> isUnder p q) (files ?w1)\<rparr>))"
    by (simp add: fs_rm_recursive_def assms(2))
  have rm': "bindIO (fs_rm_recursive p) f ?w1 =
      f () (logCall (Rm p) (?w1\<lparr>files := filter (\<lambda>(q, n). \<not> isUnder p q) (files ?w1)\<rparr>))"
    for f :: "unit \<Rightarrow> response io"
    by (simp add: bindIO_def rm)
  have "delete_try h (Some d) w =
      (Inr (Send 200 ''Item deleted successfully''),
       logCall (Rm p) (?w1\<lparr>files := filter (\<lambda>(q, n). \<not> isUnder p q) (files ?w1)\<rparr>))"
    by (simp add: delete_try_def assms(1) stat isDirectory_def rm')
  then show ?thesis
    by (simp add: delete_route_def respond_def catchIO_def logCall_def)
qed

lemma not_isUnder_child: "x \<noteq> [] \<Longrightarrow> \<not> isUnder (dirPrefix p @ x) p"
  by (auto simp: isUnder_def dirPrefix_def prefix_def split: if_splits)

lemma wellFormed_filter: "wellFormed fs \<Longrightarrow> wellFormed (filter P fs)"
  by (simp add: wellFormed_def list_all_iff)


lemma wellFormed_demo: "wellFormed (files demoWorld)"
  by (simp add: wellFormed_def demoWorld_def demoFiles_def canonicalPath_def isAbsolute_def
                normalizeString_def)


end
